(* ===== verification/Prelude.thy ===== *)
theory Prelude
  imports Main "HOL-Library.Char_ord" "HOL-Library.List_Lexorder"
begin

text \<open>
  Shared vocabulary of the development: the errors a Go function returns, results as
  sums, the 64-bit integers of the source written out on \<open>int\<close> and \<open>nat\<close>, and the
  generic lemmas on lists and sums the component theories use.

  \<^item> \<open>error\<close>: what a Go \<open>error\<close> value is in this program. \<open>Errorf\<close> carries the
    finished text of a \<open>fmt.Errorf\<close>; \<open>ErrNotFound\<close> and \<open>ErrConflict\<close> are the two
    sentinel errors of internal/state (the second with the text wrapped around it);
    \<open>ErrNoRows\<close> and \<open>ErrNotExist\<close> are the sentinels of database/sql and os that the
    code tests for; \<open>NumError\<close> is strconv's; \<open>ErrSys\<close> is any other error handed up by
    the operating system or a library.
  \<^item> \<open>wrap64\<close> is two's complement wrap-around of a mathematical integer to int64,
    \<open>wrapu64\<close> the wrap-around to uint64, \<open>go_div\<close> is Go's integer division, which
    truncates towards zero.
\<close>

named_theorems api_defs \<open>definitions of the control contract\<close>
named_theorems store_simps \<open>equations of the metadata store\<close>
named_theorems guard_simps \<open>outcome of the check-and-return chains\<close>
named_theorems inv_intros \<open>preservation of invariants by single operations\<close>

datatype error =
    Errorf string
  | ErrNotFound
  | ErrConflict string
  | ErrNoRows
  | ErrNotExist
  | NumError string
  | ErrSys string

type_synonym 'a result = "error + 'a"

text \<open>The text of an error, Go's \<open>Error()\<close> method.\<close>

fun error_text :: "error \<Rightarrow> string" where
  "error_text (Errorf t) = t"
| "error_text ErrNotFound = ''not found''"
| "error_text (ErrConflict t) = ''conflict: '' @ t"
| "error_text ErrNoRows = ''sql: no rows in result set''"
| "error_text ErrNotExist = ''file does not exist''"
| "error_text (NumError t) = t"
| "error_text (ErrSys t) = t"

section \<open>Machine integers\<close>

definition max_int64 :: int where
  "max_int64 = 2 ^ 63 - 1"

definition in_int64 :: "int \<Rightarrow> bool" where
  "in_int64 x \<longleftrightarrow> - (2 ^ 63) \<le> x \<and> x \<le> max_int64"

definition wrap64 :: "int \<Rightarrow> int" where
  "wrap64 x = (x + 2 ^ 63) mod 2 ^ 64 - 2 ^ 63"

lemma wrap64_id [simp]: "in_int64 x \<Longrightarrow> wrap64 x = x"
  by (simp add: wrap64_def in_int64_def max_int64_def)

lemma wrap64_in [simp]: "in_int64 (wrap64 x)"
proof -
  have "0 \<le> (x + 2 ^ 63) mod 2 ^ 64" "(x + 2 ^ 63) mod 2 ^ 64 < 2 ^ 64"
    by simp_all
  then show ?thesis
    by (simp add: wrap64_def in_int64_def max_int64_def)
qed

lemma in_int64I: "0 \<le> x \<Longrightarrow> x \<le> 9223372036854775807 \<Longrightarrow> in_int64 x"
  by (simp add: in_int64_def max_int64_def)

definition wrapu64 :: "nat \<Rightarrow> nat" where
  "wrapu64 n = n mod 2 ^ 64"

lemma wrapu64_id [simp]: "n < 2 ^ 64 \<Longrightarrow> wrapu64 n = n"
  by (simp add: wrapu64_def)

definition go_div :: "int \<Rightarrow> int \<Rightarrow> int" where
  "go_div a b = sgn a * sgn b * (\<bar>a\<bar> div \<bar>b\<bar>)"

lemma go_div_nonneg [simp]: "0 \<le> a \<Longrightarrow> 0 < b \<Longrightarrow> go_div a b = a div b"
  by (cases "a = 0") (auto simp: go_div_def)

lemma le_div_iff_mult_le:
  fixes k m n :: int
  assumes "0 < m"
  shows "k \<le> n div m \<longleftrightarrow> k * m \<le> n"
proof
  assume "k \<le> n div m"
  then have "k * m \<le> n div m * m" using assms by (simp add: mult_right_mono)
  also have "\<dots> \<le> n" using assms pos_mod_sign [of m n] div_mult_mod_eq [of n m] by linarith
  finally show "k * m \<le> n" .
next
  assume "k * m \<le> n"
  then have "k * m div m \<le> n div m" using assms by (rule zdiv_mono1)
  then show "k \<le> n div m" using assms by simp
qed

section \<open>Results\<close>

text \<open>Sequencing of calls that stop at the first error, Go's \<open>if e != nil { return e }\<close>.\<close>

definition bind_res :: "'a result \<Rightarrow> ('a \<Rightarrow> 'b result) \<Rightarrow> 'b result" where
  "bind_res r f = (case r of Inl e \<Rightarrow> Inl e | Inr x \<Rightarrow> f x)"

lemma bind_res_simps [simp]:
  "bind_res (Inl e) f = Inl e"
  "bind_res (Inr x) f = f x"
  by (simp_all add: bind_res_def)

lemma bind_res_Inr [simp]:
  "bind_res r f = Inr y \<longleftrightarrow> (\<exists>x. r = Inr x \<and> f x = Inr y)"
  by (cases r) auto

text \<open>A guard of the source: return the error when the condition holds.\<close>

definition fail_if :: "bool \<Rightarrow> error \<Rightarrow> unit result" where
  "fail_if b e = (if b then Inl e else Inr ())"

lemma fail_if_simps [simp]:
  "fail_if True e = Inl e"
  "fail_if False e = Inr ()"
  "fail_if b e = Inr u \<longleftrightarrow> \<not> b"
  by (simp_all add: fail_if_def)

section \<open>Lists\<close>

lemma distinct_map_filter_unique:
  "distinct (map f xs) \<Longrightarrow> x \<in> set xs \<Longrightarrow> y \<in> set xs \<Longrightarrow> f x = f y \<Longrightarrow> x = y"
  by (auto simp: distinct_map dest: inj_onD)

lemma distinct_map_Cons:
  "distinct (map f (x # xs)) \<longleftrightarrow> (\<forall>y \<in> set xs. f y \<noteq> f x) \<and> distinct (map f xs)"
  by (auto simp: image_iff)

lemma find_Some_iff_unique:
  assumes "distinct (map f xs)" "x \<in> set xs"
  shows "find (\<lambda>y. f y = f x) xs = Some x"
  using assms by (induction xs) auto

lemma find_None_map: "find (\<lambda>y. f y = k) xs = None \<longleftrightarrow> k \<notin> f ` set xs"
  by (auto simp: find_None_iff)

lemma find_SomeD: "find P xs = Some x \<Longrightarrow> x \<in> set xs \<and> P x"
  by (induction xs) (auto split: if_splits)

lemma sum_list_filter_le:
  fixes f :: "'a \<Rightarrow> int"
  assumes "\<And>x. x \<in> set xs \<Longrightarrow> 0 \<le> f x"
  shows "sum_list (map f (filter P xs)) \<le> sum_list (map f xs)"
  using assms by (induction xs) (auto simp: add_increasing)

text \<open>The shape \<open>if cond { return err }\<close>, and a nested call whose error is returned.\<close>

lemma guard_None [guard_simps]:
  "((if c then Some e else r) = None) = (\<not> c \<and> r = None)"
  by simp

lemma guard_case_None [guard_simps]:
  "((case o' of None \<Rightarrow> r | Some e \<Rightarrow> Some e) = None) = (o' = None \<and> r = None)"
  by (simp split: option.split)

lemma guard_Inr [guard_simps]:
  "((if c then Inl e else r) = Inr v) = (\<not> c \<and> r = Inr v)"
  by simp

end
