(* ===== verification/GoStrings.thy ===== *)
theory GoStrings
  imports Prelude "HOL-Library.Sublist"
begin

text \<open>
  The parts of Go's strings, strconv and path packages that niflhel calls, on byte
  strings (\<open>char list\<close>). \<open>TrimSpace\<close>, \<open>Fields\<close>, \<open>ToLower\<close> and \<open>ToUpper\<close> work on the
  ASCII range; the bytes of a multi-byte rune are left alone.
\<close>

section \<open>strings\<close>

definition HasPrefix :: "string \<Rightarrow> string \<Rightarrow> bool" where
  "HasPrefix s p = prefix p s"

definition HasSuffix :: "string \<Rightarrow> string \<Rightarrow> bool" where
  "HasSuffix s p = suffix p s"

definition TrimPrefix :: "string \<Rightarrow> string \<Rightarrow> string" where
  "TrimPrefix s p = (if HasPrefix s p then drop (length p) s else s)"

definition TrimSuffix :: "string \<Rightarrow> string \<Rightarrow> string" where
  "TrimSuffix s p = (if HasSuffix s p then take (length s - length p) s else s)"

text \<open>\<open>strings.Cut\<close> and \<open>strings.Split\<close> for a separator of one byte.\<close>

definition Cut :: "string \<Rightarrow> char \<Rightarrow> string \<times> string \<times> bool" where
  "Cut s c =
     (if c \<in> set s then (takeWhile (\<lambda>x. x \<noteq> c) s, tl (dropWhile (\<lambda>x. x \<noteq> c) s), True)
      else (s, [], False))"

fun Split :: "string \<Rightarrow> char \<Rightarrow> string list" where
  "Split [] c = [[]]"
| "Split (x # s) c =
     (if x = c then [] # Split s c
      else (case Split s c of [] \<Rightarrow> [[x]] | p # ps \<Rightarrow> (x # p) # ps))"

fun join_with :: "char \<Rightarrow> string list \<Rightarrow> string" where
  "join_with c [] = []"
| "join_with c [x] = x"
| "join_with c (x # y # ys) = x @ c # join_with c (y # ys)"

definition is_space :: "char \<Rightarrow> bool" where
  "is_space c \<longleftrightarrow> of_char c \<in> {9, 10, 11, 12, 13, 32 :: nat}"

definition TrimSpace :: "string \<Rightarrow> string" where
  "TrimSpace s = rev (dropWhile is_space (rev (dropWhile is_space s)))"

fun fields_aux :: "string \<Rightarrow> string \<Rightarrow> string list" where
  "fields_aux acc [] = (if acc = [] then [] else [rev acc])"
| "fields_aux acc (x # s) =
     (if is_space x then (if acc = [] then fields_aux [] s else rev acc # fields_aux [] s)
      else fields_aux (x # acc) s)"

definition Fields :: "string \<Rightarrow> string list" where
  "Fields s = fields_aux [] s"

definition to_lower :: "char \<Rightarrow> char" where
  "to_lower c = (let n = of_char c :: nat in if 65 \<le> n \<and> n \<le> 90 then char_of (n + 32) else c)"

definition to_upper :: "char \<Rightarrow> char" where
  "to_upper c = (let n = of_char c :: nat in if 97 \<le> n \<and> n \<le> 122 then char_of (n - 32) else c)"

definition ToLower :: "string \<Rightarrow> string" where
  "ToLower s = map to_lower s"

definition ToUpper :: "string \<Rightarrow> string" where
  "ToUpper s = map to_upper s"

section \<open>strconv\<close>

definition is_digit :: "char \<Rightarrow> bool" where
  "is_digit c \<longleftrightarrow> (48 :: nat) \<le> of_char c \<and> of_char c \<le> (57 :: nat)"

definition digit_val :: "char \<Rightarrow> nat" where
  "digit_val c = of_char c - 48"

definition digit_char :: "nat \<Rightarrow> char" where
  "digit_char d = char_of (48 + d)"

fun itoa_nat :: "nat \<Rightarrow> string" where
  "itoa_nat n = (if n < 10 then [digit_char n] else itoa_nat (n div 10) @ [digit_char (n mod 10)])"

declare itoa_nat.simps [simp del]

definition Itoa :: "int \<Rightarrow> string" where
  "Itoa i = (if i < 0 then CHR ''-'' # itoa_nat (nat (- i)) else itoa_nat (nat i))"

text \<open>
  The digit loop of \<open>strconv.ParseUint\<close> in base ten: it stops with a syntax error at the
  first byte that is no digit and with a range error as soon as the value leaves the
  target width (\<open>m\<close> is the largest admitted value).
\<close>

datatype num_err = ErrSyntax | ErrRange

fun uint_loop :: "nat \<Rightarrow> nat \<Rightarrow> string \<Rightarrow> num_err + nat" where
  "uint_loop m n [] = Inr n"
| "uint_loop m n (c # cs) =
     (if \<not> is_digit c then Inl ErrSyntax
      else if n * 10 + digit_val c > m then Inl ErrRange
      else uint_loop m (n * 10 + digit_val c) cs)"

definition ParseUint :: "string \<Rightarrow> nat \<Rightarrow> num_err + nat" where
  "ParseUint s bits = (if s = [] then Inl ErrSyntax else uint_loop (2 ^ bits - 1) 0 s)"

definition ParseInt :: "string \<Rightarrow> num_err + int" where
  "ParseInt s =
     (if s = [] then Inl ErrSyntax else
      let neg = (hd s = CHR ''-'');
          t = (if hd s = CHR ''-'' \<or> hd s = CHR ''+'' then tl s else s)
      in case ParseUint t 64 of
           Inl e \<Rightarrow> Inl e
         | Inr un \<Rightarrow>
             (if \<not> neg \<and> 2 ^ 63 \<le> un then Inl ErrRange
              else if neg \<and> 2 ^ 63 < un then Inl ErrRange
              else Inr (if neg then - int un else int un)))"

definition num_error_text :: "string \<Rightarrow> string \<Rightarrow> num_err \<Rightarrow> string" where
  "num_error_text fn s e =
     ''strconv.'' @ fn @ '': parsing '' @ [CHR 0x22] @ s @ [CHR 0x22] @ '': '' @
     (case e of ErrSyntax \<Rightarrow> ''invalid syntax'' | ErrRange \<Rightarrow> ''value out of range'')"

definition Atoi :: "string \<Rightarrow> int result" where
  "Atoi s = (case ParseInt s of Inl e \<Rightarrow> Inl (NumError (num_error_text ''Atoi'' s e)) | Inr n \<Rightarrow> Inr n)"

text \<open>
  The verb \<open>%q\<close>: the string between double quotes, with quotes, backslashes and
  control bytes escaped.
\<close>

definition hex_digit :: "nat \<Rightarrow> char" where
  "hex_digit n = (if n < 10 then char_of (48 + n) else char_of (87 + n))"

definition quote_char :: "char \<Rightarrow> string" where
  "quote_char c =
     (let n = of_char c :: nat; bs = CHR 0x5C in
      if n = 34 \<or> n = 92 then [bs, c]
      else if n = 7 then [bs, CHR ''a''] else if n = 8 then [bs, CHR ''b'']
      else if n = 12 then [bs, CHR ''f''] else if n = 10 then [bs, CHR ''n'']
      else if n = 13 then [bs, CHR ''r''] else if n = 9 then [bs, CHR ''t'']
      else if n = 11 then [bs, CHR ''v'']
      else if n < 32 \<or> n = 127 then [bs, CHR ''x'', hex_digit (n div 16), hex_digit (n mod 16)]
      else [c])"

definition go_quote :: "string \<Rightarrow> string" where
  "go_quote s = [CHR 0x22] @ concat (map quote_char s) @ [CHR 0x22]"

section \<open>path\<close>

definition IsAbs :: "string \<Rightarrow> bool" where
  "IsAbs s = HasPrefix s ''/''"

text \<open>
  \<open>path.Clean\<close> on the elements of the path: empty elements and \<open>.\<close> vanish, \<open>..\<close> removes
  the element before it, is dropped at the root and kept at the front of a relative path.
  The second argument is the stack of elements kept so far.
\<close>

fun clean_segs :: "bool \<Rightarrow> string list \<Rightarrow> string list \<Rightarrow> string list" where
  "clean_segs rooted st [] = rev st"
| "clean_segs rooted st (x # xs) =
     (if x = [] \<or> x = ''.'' then clean_segs rooted st xs
      else if x = ''..'' then
        (case st of
           [] \<Rightarrow> if rooted then clean_segs rooted [] xs else clean_segs rooted [''..''] xs
         | y # ys \<Rightarrow> if y = ''..'' then clean_segs rooted (''..'' # st) xs
                   else clean_segs rooted ys xs)
      else clean_segs rooted (x # st) xs)"

definition Clean :: "string \<Rightarrow> string" where
  "Clean s =
     (if s = [] then ''.''
      else let body = join_with (CHR ''/'') (clean_segs (IsAbs s) [] (Split s (CHR ''/'')))
           in if IsAbs s then CHR ''/'' # body
              else if body = [] then ''.'' else body)"

definition path_Join :: "string list \<Rightarrow> string" where
  "path_Join es =
     (case filter (\<lambda>e. e \<noteq> []) es of [] \<Rightarrow> [] | ps \<Rightarrow> Clean (join_with (CHR ''/'') ps))"

text \<open>An element of a path that cleaning keeps as it is.\<close>

definition plain_elem :: "string \<Rightarrow> bool" where
  "plain_elem x \<longleftrightarrow> x \<noteq> [] \<and> x \<noteq> ''.'' \<and> x \<noteq> ''..'' \<and> CHR ''/'' \<notin> set x"

section \<open>Lemmas on splitting and joining\<close>

lemma Split_not_Nil [simp]: "Split s c \<noteq> []"
  by (cases s) (auto split: list.splits)

lemma Split_no_sep: "x \<in> set (Split s c) \<Longrightarrow> c \<notin> set x"
proof (induction s arbitrary: x)
  case (Cons a s)
  then show ?case
    by (cases "Split s c") (auto split: if_splits)
qed simp

lemma Split_single [simp]: "c \<notin> set x \<Longrightarrow> Split x c = [x]"
  by (induction x) auto

lemma Split_append: "c \<notin> set x \<Longrightarrow> Split (x @ c # s) c = x # Split s c"
  by (induction x) auto

lemma Split_join:
  "xs \<noteq> [] \<Longrightarrow> (\<And>x. x \<in> set xs \<Longrightarrow> c \<notin> set x) \<Longrightarrow> Split (join_with c xs) c = xs"
  by (induction c xs rule: join_with.induct) (auto simp: Split_append)

lemma join_Split: "join_with c (Split s c) = s"
proof (induction s)
  case (Cons a s)
  then show ?case
  proof (cases "Split s c")
    case (Cons p ps)
    with \<open>join_with c (Split s c) = s\<close> show ?thesis
      by (cases ps) auto
  qed simp
qed simp

lemma Cut_append [simp]: "c \<notin> set k \<Longrightarrow> Cut (k @ c # v) c = (k, v, True)"
  by (auto simp: Cut_def takeWhile_append dropWhile_append takeWhile_eq_all_conv)

lemma Cut_no [simp]: "c \<notin> set s \<Longrightarrow> Cut s c = (s, [], False)"
  by (simp add: Cut_def)

lemma Cut_key_no_sep: "c \<notin> set (fst (Cut s c))"
  by (auto simp: Cut_def dest: set_takeWhileD)

section \<open>Decimal round trip\<close>

lemma of_char_digit [simp]: "d < 10 \<Longrightarrow> of_char (digit_char d) = (48 + d :: nat)"
  by (simp add: digit_char_def)

lemma is_digit_digit_char [simp]: "d < 10 \<Longrightarrow> is_digit (digit_char d)"
  by (simp add: is_digit_def)

lemma digit_val_digit_char [simp]: "d < 10 \<Longrightarrow> digit_val (digit_char d) = d"
  by (simp add: digit_val_def)

lemma digit_chars:
  "digit_char 0 = CHR ''0''" "digit_char 1 = CHR ''1''" "digit_char (Suc 0) = CHR ''1''" "digit_char 2 = CHR ''2''"
  "digit_char 3 = CHR ''3''" "digit_char 4 = CHR ''4''" "digit_char 5 = CHR ''5''" "digit_char 6 = CHR ''6''"
  "digit_char 7 = CHR ''7''" "digit_char 8 = CHR ''8''" "digit_char 9 = CHR ''9''"
  by (simp_all add: digit_char_def char_of_def bit_0 bit_Suc)

lemma itoa_nat_not_Nil [simp]: "itoa_nat n \<noteq> []"
  by (subst itoa_nat.simps) simp

lemma itoa_nat_digits: "c \<in> set (itoa_nat n) \<Longrightarrow> is_digit c"
proof (induction n arbitrary: c rule: itoa_nat.induct)
  case (1 n)
  then show ?case
    by (cases "n < 10") (auto simp: itoa_nat.simps [of n])
qed

lemma uint_loop_itoa: "n \<le> m \<Longrightarrow> uint_loop m 0 (itoa_nat n @ cs) = uint_loop m n cs"
proof (induction n arbitrary: cs rule: itoa_nat.induct)
  case (1 n)
  show ?case
  proof (cases "n < 10")
    case True
    with "1.prems" show ?thesis by (simp add: itoa_nat.simps [of n])
  next
    case False
    have "n div 10 \<le> m" using "1.prems" by linarith
    with False have "uint_loop m 0 (itoa_nat (n div 10) @ digit_char (n mod 10) # cs)
        = uint_loop m (n div 10) (digit_char (n mod 10) # cs)"
      using "1.IH" by simp
    with False "1.prems" show ?thesis by (simp add: itoa_nat.simps [of n])
  qed
qed

lemma ParseUint_itoa: "n < 2 ^ bits \<Longrightarrow> ParseUint (itoa_nat n) bits = Inr n"
  using uint_loop_itoa [of n "2 ^ bits - 1" "[]"] by (simp add: ParseUint_def)

lemma digit_not_sign:
  "is_digit c \<Longrightarrow> c \<noteq> CHR ''-'' \<and> c \<noteq> CHR ''+'' \<and> c \<noteq> CHR '':'' \<and> c \<noteq> CHR ''/'' \<and> \<not> is_space c"
  by (auto simp: is_digit_def is_space_def)

lemma hd_itoa_nat: "is_digit (hd (itoa_nat n))"
  by (rule itoa_nat_digits, rule hd_in_set, simp)

lemma ParseInt_itoa_nat: "n < 2 ^ 63 \<Longrightarrow> ParseInt (itoa_nat n) = Inr (int n)"
  using hd_itoa_nat [of n] ParseUint_itoa [of n 64] digit_not_sign [of "hd (itoa_nat n)"]
  by (simp add: ParseInt_def Let_def)

lemma ParseInt_Itoa: "in_int64 i \<Longrightarrow> ParseInt (Itoa i) = Inr i"
proof (cases "i < 0")
  case True
  assume "in_int64 i"
  with True have "nat (- i) \<le> 2 ^ 63" "nat (- i) < 2 ^ 64"
    by (auto simp: in_int64_def)
  with True ParseUint_itoa [of "nat (- i)" 64] show ?thesis
    by (simp add: ParseInt_def Itoa_def Let_def)
next
  case False
  assume "in_int64 i"
  with False have "nat i < 2 ^ 63"
    by (auto simp: in_int64_def max_int64_def nat_less_iff)
  with False ParseInt_itoa_nat [of "nat i"] show ?thesis
    by (simp add: Itoa_def)
qed

lemma Atoi_Itoa [simp]: "in_int64 i \<Longrightarrow> Atoi (Itoa i) = Inr i"
  by (simp add: Atoi_def ParseInt_Itoa)

lemma Atoi_range: "Atoi s = Inr n \<Longrightarrow> in_int64 n"
  by (auto simp: Atoi_def ParseInt_def Let_def in_int64_def max_int64_def
      split: sum.splits if_splits)

lemma ParseInt_range: "ParseInt s = Inr n \<Longrightarrow> in_int64 n"
  by (auto simp: ParseInt_def Let_def in_int64_def max_int64_def split: sum.splits if_splits)

section \<open>Lemmas on cleaned paths\<close>

text \<open>
  Normal element lists: what \<open>clean_segs\<close> produces. The flag says whether \<open>..\<close> may still
  occur, which is only at the front of a relative path.
\<close>

fun norm_segs :: "bool \<Rightarrow> string list \<Rightarrow> bool" where
  "norm_segs b [] = True"
| "norm_segs b (x # xs) =
     (x \<noteq> [] \<and> x \<noteq> ''.'' \<and> CHR ''/'' \<notin> set x \<and> (x = ''..'' \<longrightarrow> b) \<and> norm_segs (b \<and> x = ''..'') xs)"

lemma norm_segs_snoc:
  "norm_segs b (xs @ [x]) \<longleftrightarrow>
     norm_segs b xs \<and> x \<noteq> [] \<and> x \<noteq> ''.'' \<and> CHR ''/'' \<notin> set x \<and>
     (x = ''..'' \<longrightarrow> b \<and> (\<forall>y \<in> set xs. y = ''..''))"
  by (induction xs arbitrary: b) auto

lemma norm_segs_snoc2:
  "norm_segs b (xs @ [x, y]) \<longleftrightarrow> norm_segs b ((xs @ [x]) @ [y])"
  by simp

lemma norm_segs_append1: "norm_segs b (xs @ ys) \<Longrightarrow> norm_segs b xs"
  by (induction xs arbitrary: b) auto

lemma norm_segs_all_dotdot:
  "norm_segs b (xs @ ''..'' # ys) \<Longrightarrow> b \<and> (\<forall>y \<in> set xs. y = ''..'')"
  by (induction xs arbitrary: b) auto

lemma norm_segs_no_slash: "norm_segs b xs \<Longrightarrow> x \<in> set xs \<Longrightarrow> CHR ''/'' \<notin> set x \<and> x \<noteq> []"
  by (induction xs arbitrary: b) auto

lemma norm_segs_False_no_dotdot: "norm_segs False xs \<Longrightarrow> ''..'' \<notin> set xs"
  by (induction xs) auto

lemma norm_segs_head_no_dotdot:
  "norm_segs b xs \<Longrightarrow> xs = [] \<or> hd xs \<noteq> ''..'' \<Longrightarrow> ''..'' \<notin> set xs"
  by (cases xs) (auto dest: norm_segs_False_no_dotdot)

lemma clean_segs_norm:
  "norm_segs (\<not> rooted) (rev st) \<Longrightarrow> (\<And>x. x \<in> set xs \<Longrightarrow> CHR ''/'' \<notin> set x) \<Longrightarrow>
   norm_segs (\<not> rooted) (clean_segs rooted st xs)"
  by (induction rooted st xs rule: clean_segs.induct)
     (auto simp: norm_segs_snoc2 norm_segs_snoc simp del: append_assoc split: list.splits
       dest: norm_segs_append1)

lemma clean_segs_fix:
  "norm_segs (\<not> rooted) (rev st @ xs) \<Longrightarrow> clean_segs rooted st xs = rev st @ xs"
proof (induction rooted st xs rule: clean_segs.induct)
  case (2 rooted st x xs)
  have x: "x \<noteq> []" "x \<noteq> ''.''"
    using "2.prems" by (auto simp: norm_segs_snoc dest!: norm_segs_append1 [of _ "rev st @ [x]" xs, simplified])
  show ?case
  proof (cases "x = ''..''")
    case True
    with "2.prems" have d: "\<not> rooted" "\<forall>y \<in> set st. y = ''..''"
      using norm_segs_all_dotdot [of "\<not> rooted" "rev st" xs] by auto
    with x True "2.prems" "2.IH" show ?thesis
      by (cases st) auto
  next
    case False
    with x "2.prems" "2.IH" show ?thesis by simp
  qed
qed simp

lemma join_with_Nil_iff: "norm_segs b xs \<Longrightarrow> join_with c xs = [] \<longleftrightarrow> xs = []"
  by (induction c xs rule: join_with.induct) auto

lemma join_with_head:
  "norm_segs b (x # xs) \<Longrightarrow> hd (join_with c (x # xs)) = hd x \<and> join_with c (x # xs) \<noteq> []"
  by (cases xs) auto

definition clean_elems :: "string \<Rightarrow> string list" where
  "clean_elems s = clean_segs (IsAbs s) [] (Split s (CHR ''/''))"

lemma clean_elems_norm: "norm_segs (\<not> IsAbs s) (clean_elems s)"
  unfolding clean_elems_def by (rule clean_segs_norm) (auto dest: Split_no_sep)

lemma Clean_alt:
  "Clean s = (let body = join_with (CHR ''/'') (clean_elems s)
     in if s = [] then ''.'' else if IsAbs s then CHR ''/'' # body
        else if body = [] then ''.'' else body)"
  by (simp add: Clean_def clean_elems_def Let_def)

lemma IsAbs_Cons [simp]: "IsAbs (c # s) \<longleftrightarrow> c = CHR ''/''" "\<not> IsAbs []"
  by (auto simp: IsAbs_def HasPrefix_def)

lemma IsAbs_Clean [simp]: "IsAbs (Clean s) \<longleftrightarrow> IsAbs s"
proof (cases "clean_elems s")
  case Nil
  then show ?thesis by (simp add: Clean_alt)
next
  case (Cons x xs)
  with clean_elems_norm [of s] have n: "norm_segs (\<not> IsAbs s) (x # xs)" by simp
  then have "x \<noteq> []" "CHR ''/'' \<notin> set x" by auto
  then obtain y ys where "x = y # ys" "y \<noteq> CHR ''/''" by (cases x) auto
  with Cons join_with_head [OF n, of "CHR ''/''"] show ?thesis
    by (cases s; cases "join_with (CHR ''/'') (x # xs)") (auto simp: Clean_alt Let_def split: if_splits)
qed

text \<open>The elements of a cleaned path are those of the path: nothing is left to clean.\<close>

lemma clean_elems_join:
  assumes "norm_segs (\<not> r) xs"
  shows "clean_segs r [] (Split (join_with (CHR ''/'') xs) (CHR ''/'')) = xs"
proof (cases xs)
  case (Cons a list)
  then have "Split (join_with (CHR ''/'') xs) (CHR ''/'') = xs"
    using norm_segs_no_slash [OF assms] by (intro Split_join) auto
  with assms show ?thesis by (simp add: clean_segs_fix)
qed simp

lemma clean_elems_rooted [simp]:
  "clean_elems (CHR ''/'' # s) = clean_segs True [] (Split s (CHR ''/''))"
  by (simp add: clean_elems_def)

lemma clean_elems_Nil [simp]: "clean_elems [] = []"
  by (simp add: clean_elems_def)

lemma clean_elems_dot [simp]: "clean_elems ''.'' = []"
  by (simp add: clean_elems_def)

lemma Clean_Nil [simp]: "Clean [] = ''.''"
  by (simp add: Clean_def)

lemma clean_elems_Clean [simp]: "clean_elems (Clean s) = clean_elems s"
proof -
  let ?b = "join_with (CHR ''/'') (clean_elems s)"
  note n = clean_elems_norm [of s]
  have e: "clean_segs (IsAbs s) [] (Split ?b (CHR ''/'')) = clean_elems s"
    using n by (rule clean_elems_join)
  consider "IsAbs s" | "\<not> IsAbs s" "clean_elems s = []" | "\<not> IsAbs s" "clean_elems s \<noteq> []"
    by blast
  then show ?thesis
  proof cases
    case 1
    then have "Clean s = CHR ''/'' # ?b" by (cases s) (auto simp: Clean_alt)
    with 1 e show ?thesis by simp
  next
    case 2
    then have "Clean s = ''.''" by (simp add: Clean_alt)
    with 2 show ?thesis by simp
  next
    case 3
    then have "s \<noteq> []" by (auto simp: clean_elems_def)
    with 3 have "Clean s = ?b"
      using join_with_Nil_iff [OF n, of "CHR ''/''"] by (simp add: Clean_alt)
    moreover have "\<not> IsAbs (Clean s)" using 3 by simp
    ultimately show ?thesis using e 3 by (simp add: clean_elems_def [of ?b])
  qed
qed

lemma Clean_not_Nil [simp]: "Clean s \<noteq> []"
  by (simp add: Clean_alt Let_def)

lemma Clean_idem [simp]: "Clean (Clean s) = Clean s"
proof -
  have "Clean (Clean s) =
    (let body = join_with (CHR ''/'') (clean_elems s)
     in if IsAbs s then CHR ''/'' # body else if body = [] then ''.'' else body)"
    by (simp add: Clean_alt [of "Clean s"])
  then show ?thesis by (cases "s = []") (auto simp: Clean_alt [of s] Let_def)
qed

text \<open>
  A cleaned relative path that neither is \<open>..\<close> nor starts with \<open>../\<close> has no \<open>..\<close> element
  at all: the test the program applies before it opens a path below a root.
\<close>

lemma Clean_hd_dotdot:
  assumes "\<not> IsAbs s" "clean_elems s = ''..'' # xs"
  shows "Clean s = ''..'' \<or> HasPrefix (Clean s) ''../''"
proof -
  have "s \<noteq> []" using assms by (auto simp: clean_elems_def)
  with assms show ?thesis by (cases xs) (auto simp: Clean_alt HasPrefix_def Let_def)
qed

lemma Clean_confined:
  assumes "\<not> IsAbs s" "Clean s \<noteq> ''..''" "\<not> HasPrefix (Clean s) ''../''"
  shows "''..'' \<notin> set (clean_elems s)"
proof (cases "clean_elems s")
  case (Cons x xs)
  with assms Clean_hd_dotdot [OF assms(1)] have "x \<noteq> ''..''" by auto
  with Cons clean_elems_norm [of s] show ?thesis
    by (auto dest: norm_segs_False_no_dotdot)
qed simp

lemma IsAbs_Clean_confined: "IsAbs s \<Longrightarrow> ''..'' \<notin> set (clean_elems s)"
  using clean_elems_norm [of s] by (auto dest: norm_segs_False_no_dotdot)

lemma Split_app: "Split (s @ c # u) c = Split s c @ Split u c"
proof (induction s)
  case (Cons a s)
  then show ?case by (cases "Split s c") auto
qed simp

lemma join_app: "rs \<noteq> [] \<Longrightarrow> us \<noteq> [] \<Longrightarrow> join_with c (rs @ us) = join_with c rs @ c # join_with c us"
proof (induction c rs rule: join_with.induct)
  case (2 c x)
  then show ?case by (cases us) auto
qed auto

lemma clean_segs_append:
  "clean_segs r st (xs @ ys) = clean_segs r (rev (clean_segs r st xs)) ys"
  by (induction r st xs rule: clean_segs.induct) (auto split: list.splits)

lemma clean_segs_plain: "list_all plain_elem es \<Longrightarrow> clean_segs r st es = rev st @ es"
  by (induction es arbitrary: st) (auto simp: plain_elem_def)

lemma IsAbs_append: "s \<noteq> [] \<Longrightarrow> IsAbs (s @ t) = IsAbs s"
  by (cases s) auto

text \<open>Joining plain elements below a root appends them to the elements of the root.\<close>

lemma clean_elems_below:
  assumes "s \<noteq> []" "es \<noteq> []" "list_all plain_elem es"
  shows "clean_elems (s @ CHR ''/'' # join_with (CHR ''/'') es) = clean_elems s @ es"
proof -
  have "Split (join_with (CHR ''/'') es) (CHR ''/'') = es"
    using assms(2,3) by (intro Split_join) (auto simp: list_all_iff plain_elem_def)
  then show ?thesis
    using assms by (simp add: clean_elems_def Split_app IsAbs_append clean_segs_append clean_segs_plain)
qed

lemma path_Join_below:
  assumes "s \<noteq> []" "es \<noteq> []" "list_all plain_elem es"
  shows "clean_elems (path_Join (s # es)) = clean_elems s @ es" "IsAbs (path_Join (s # es)) = IsAbs s"
    "Clean (path_Join (s # es)) = path_Join (s # es)"
proof -
  have "filter (\<lambda>e. e \<noteq> []) (s # es) = s # es"
    using assms(1,3) by (intro filter_True) (auto simp: list_all_iff plain_elem_def)
  then have "path_Join (s # es) = Clean (join_with (CHR ''/'') (s # es))"
    by (simp only: path_Join_def list.case)
  moreover have "join_with (CHR ''/'') (s # es) = s @ CHR ''/'' # join_with (CHR ''/'') es"
    using assms(2) by (cases es) simp_all
  ultimately have j: "path_Join (s # es) = Clean (s @ CHR ''/'' # join_with (CHR ''/'') es)" by simp
  show "clean_elems (path_Join (s # es)) = clean_elems s @ es"
    unfolding j clean_elems_Clean by (rule clean_elems_below [OF assms])
  show "IsAbs (path_Join (s # es)) = IsAbs s" 
    unfolding j IsAbs_Clean by (rule IsAbs_append [OF assms(1)])
  show "Clean (path_Join (s # es)) = path_Join (s # es)" unfolding j by (rule Clean_idem)
qed

lemma path_Join_inj:
  assumes "s \<noteq> []" "es \<noteq> []" "fs \<noteq> []" "list_all plain_elem es" "list_all plain_elem fs"
  shows "path_Join (s # es) = path_Join (s # fs) \<longleftrightarrow> es = fs"
  using path_Join_below(1) [OF assms(1,2,4)] path_Join_below(1) [OF assms(1,3,5)]
  by (metis same_append_eq)

end
