(* ===== verification/Api.thy ===== *)
theory Api
  imports GoStrings
begin

text \<open>
  internal/api/types.go: the data of the control contract and the functions on it
  (\<open>DefaultSpec\<close>, \<open>ValidName\<close>, \<open>ID\<close>, \<open>Size\<close>, \<open>Spec.Validate\<close>, \<open>ParsePort\<close>,
  \<open>ParseMount\<close>, \<open>MergeEnv\<close>, \<open>Resolve\<close>). Field selectors carry their struct's name first.
  Go's \<open>int\<close> and \<open>int64\<close> are \<open>int\<close> with \<open>wrap64\<close> where an operation could overflow,
  pointers are options, times are integers (nanoseconds).
\<close>

section \<open>Data\<close>

definition MiB :: int where "MiB = 1048576"
definition GiB :: int where "GiB = 1073741824"
definition Protocol :: int where "Protocol = 1"

record Port =
  Port_HostIP :: string
  Port_HostPort :: int
  Port_ContainerPort :: int

record Mount =
  Mount_Name :: string
  Mount_Target :: string
  Mount_ReadOnly :: bool

record Spec =
  Spec_Image :: string
  Spec_Base :: string
  Spec_Name :: string
  Spec_Command :: "string list"
  Spec_Entrypoint :: "string option"
  Spec_Env :: "string list"
  Spec_User :: string
  Spec_Workdir :: string
  Spec_CPUs :: int
  Spec_Memory :: int
  Spec_DiskSize :: int
  Spec_PidsLimit :: int
  Spec_Network :: string
  Spec_Ports :: "Port list"
  Spec_Mounts :: "Mount list"
  Spec_Runtime :: string
  Spec_Platform :: string
  Spec_Pull :: string
  Spec_ReadOnly :: bool
  Spec_Interactive :: bool
  Spec_TTY :: bool
  Spec_AutoRemove :: bool

record Process =
  Process_Args :: "string list"
  Process_Env :: "string list"
  Process_User :: string
  Process_Cwd :: string
  Process_StopSignal :: string
  Process_TTY :: bool
  Process_Interactive :: bool

record ImageConfig =
  ImageConfig_Entrypoint :: "string list"
  ImageConfig_Cmd :: "string list"
  ImageConfig_Env :: "string list"
  ImageConfig_User :: string
  ImageConfig_WorkingDir :: string
  ImageConfig_StopSignal :: string
  ImageConfig_Volumes :: "string list"
  ImageConfig_Healthcheck :: bool

record Exit =
  Exit_Code :: "int option"
  Exit_Reason :: string
  Exit_OOM :: bool
  Exit_At :: int

record Sandbox =
  Sandbox_ID :: string
  Sandbox_Name :: string
  Sandbox_Spec :: Spec
  Sandbox_Process :: Process
  Sandbox_ImageDigest :: string
  Sandbox_BaseDigest :: string
  Sandbox_State :: string
  Sandbox_Reason :: string
  Sandbox_Warnings :: "string list"
  Sandbox_Generation :: int
  Sandbox_Created :: int
  Sandbox_Updated :: int
  Sandbox_Exit :: "Exit option"
  Sandbox_PID :: int
  Sandbox_PIDStart :: string
  Sandbox_GuestMemory :: int
  Sandbox_Slot :: int
  Sandbox_VMResourcesReleased :: bool

record Volume =
  Volume_Name :: string
  Volume_Size :: int
  Volume_Created :: int

record Exec =
  Exec_ID :: string
  Exec_Args :: "string list"
  Exec_Env :: "string list"
  Exec_User :: string
  Exec_Cwd :: string
  Exec_TTY :: bool
  Exec_Interactive :: bool

record Request =
  Request_Action :: string
  Request_ID :: string
  Request_Operation :: string
  Request_Spec :: "Spec option"
  Request_Exec :: "Exec option"
  Request_Volume :: "Volume option"
  Request_Ref :: string
  Request_Policy :: string
  Request_Force :: bool
  Request_Signal :: string
  Request_Timeout :: int
  Request_Path :: string
  Request_Data :: string

definition Request0 :: Request where
  "Request0 = \<lparr>Request_Action = [], Request_ID = [], Request_Operation = [], Request_Spec = None, Request_Exec = None,
     Request_Volume = None, Request_Ref = [], Request_Policy = [], Request_Force = False, Request_Signal = [],
     Request_Timeout = 0, Request_Path = [], Request_Data = []\<rparr>"

record Frame =
  Frame_Type :: string
  Frame_Data :: string
  Frame_Message :: string
  Frame_Code :: "int option"
  Frame_Width :: nat
  Frame_Height :: nat
  Frame_Sequence :: nat
  Frame_Time :: int

definition DefaultSpec :: Spec where
  "DefaultSpec = \<lparr>Spec_Image = [], Spec_Base = [], Spec_Name = [], Spec_Command = [],
     Spec_Entrypoint = None, Spec_Env = [], Spec_User = [], Spec_Workdir = [],
     Spec_CPUs = 1, Spec_Memory = 512 * MiB, Spec_DiskSize = 4 * GiB, Spec_PidsLimit = 256,
     Spec_Network = ''bridge'', Spec_Ports = [], Spec_Mounts = [], Spec_Runtime = ''runc'',
     Spec_Platform = ''linux/amd64'', Spec_Pull = ''missing'', Spec_ReadOnly = False,
     Spec_Interactive = False, Spec_TTY = False, Spec_AutoRemove = False\<rparr>"

section \<open>Names and identifiers\<close>

definition is_alnum :: "char \<Rightarrow> bool" where
  "is_alnum c = (let n = of_char c :: nat in
     (97 \<le> n \<and> n \<le> 122) \<or> (65 \<le> n \<and> n \<le> 90) \<or> (48 \<le> n \<and> n \<le> 57))"

definition is_name_char :: "char \<Rightarrow> bool" where
  "is_name_char c \<longleftrightarrow> is_alnum c \<or> c = CHR ''_'' \<or> c = CHR ''.'' \<or> c = CHR ''-''"

text \<open>The pattern is \<^verbatim>\<open>^[a-zA-Z0-9][a-zA-Z0-9_.-]{0,62}$\<close>.\<close>

definition ValidName :: "string \<Rightarrow> bool" where
  "ValidName s = (case s of [] \<Rightarrow> False
     | c # cs \<Rightarrow> is_alnum c \<and> length cs \<le> 62 \<and> list_all is_name_char cs)"

text \<open>\<open>ID\<close> is the hexadecimal text of sixteen random bytes, which are the argument here.\<close>

fun hex_encode :: "nat list \<Rightarrow> string" where
  "hex_encode [] = []"
| "hex_encode (b # bs) = hex_digit (b div 16) # hex_digit (b mod 16) # hex_encode bs"

definition ID :: "nat list \<Rightarrow> string" where
  "ID bytes = hex_encode bytes"

section \<open>Sizes\<close>

definition size_units :: "(string \<times> int) list" where
  "size_units = [(''gib'', GiB), (''mib'', MiB), (''kib'', 1024), (''gb'', GiB), (''mb'', MiB),
     (''kb'', 1024), (''g'', GiB), (''m'', MiB), (''k'', 1024), (''b'', 1)]"

fun strip_unit :: "(string \<times> int) list \<Rightarrow> string \<Rightarrow> string \<times> int" where
  "strip_unit [] s = (s, 1)"
| "strip_unit ((u, n) # us) s = (if HasSuffix s u then (TrimSuffix s u, n) else strip_unit us s)"

definition Size :: "string \<Rightarrow> int result" where
  "Size s0 =
     (let (s, multiplier) = strip_unit size_units (ToLower (TrimSpace s0)) in
      case ParseInt s of
        Inl e \<Rightarrow> Inl (Errorf (''invalid positive size '' @ go_quote s))
      | Inr n \<Rightarrow>
          if n \<le> 0 \<or> n > go_div (2 ^ 63 - 1) multiplier
          then Inl (Errorf (''invalid positive size '' @ go_quote s))
          else Inr (wrap64 (n * multiplier)))"

section \<open>Spec.Validate\<close>

fun check_env :: "string list \<Rightarrow> error option" where
  "check_env [] = None"
| "check_env (e # es) =
     (let (k, _, ok) = Cut e (CHR ''='') in
      if \<not> ok \<or> k = [] \<or> CHR 0x00 \<in> set e then Some (Errorf ''invalid environment entry'')
      else check_env es)"

fun check_ports :: "string set \<Rightarrow> Port list \<Rightarrow> error option" where
  "check_ports seen [] = None"
| "check_ports seen (p # ps) =
     (if Port_HostIP p \<noteq> ''127.0.0.1'' \<and> Port_HostIP p \<noteq> ''0.0.0.0''
      then Some (Errorf ''host IP must be 127.0.0.1 or 0.0.0.0'')
      else if Port_HostPort p < 1 \<or> Port_HostPort p > 65535 \<or>
              Port_ContainerPort p < 1 \<or> Port_ContainerPort p > 65535
      then Some (Errorf ''port out of range'')
      else let k = Itoa (Port_HostPort p) in
           if k \<in> seen then Some (Errorf ''duplicate host port'')
           else check_ports (insert k seen) ps)"

definition reserved_targets :: "string list" where
  "reserved_targets = [''/proc'', ''/sys'', ''/dev'', ''/run/niflhel'']"

fun check_mounts :: "string set \<Rightarrow> Mount list \<Rightarrow> error option" where
  "check_mounts seen [] = None"
| "check_mounts seen (m # ms) =
     (if \<not> ValidName (Mount_Name m) \<or> \<not> IsAbs (Mount_Target m) \<or>
         Clean (Mount_Target m) \<noteq> Mount_Target m \<or> Mount_Target m = ''/''
      then Some (Errorf ''invalid named volume mount'')
      else if list_ex (\<lambda>r. Mount_Target m = r \<or> HasPrefix (Mount_Target m) (r @ ''/'')) reserved_targets
      then Some (Errorf (''reserved mount target '' @ Mount_Target m))
      else if Mount_Target m \<in> seen \<or> (''name:'' @ Mount_Name m) \<in> seen
      then Some (Errorf ''duplicate volume or destination'')
      else check_mounts (insert (''name:'' @ Mount_Name m) (insert (Mount_Target m) seen)) ms)"

definition Validate :: "Spec \<Rightarrow> error option" where
  "Validate s =
     (if Spec_Image s = [] then Some (Errorf ''image is required'')
      else if Spec_Name s \<noteq> [] \<and> \<not> ValidName (Spec_Name s)
      then Some (Errorf (''invalid name '' @ go_quote (Spec_Name s)))
      else if Spec_Runtime s \<noteq> ''runc''
      then Some (Errorf (''UnsupportedFeature: runtime '' @ go_quote (Spec_Runtime s) @
                 ''; phase one supports runc''))
      else if Spec_Platform s \<noteq> ''linux/amd64''
      then Some (Errorf (''UnsupportedFeature: platform '' @ go_quote (Spec_Platform s)))
      else if Spec_CPUs s < 1 \<or> Spec_CPUs s > 32
      then Some (Errorf ''cpus must be a whole number between 1 and 32'')
      else if Spec_Memory s < 64 * MiB \<or> Spec_Memory s > 1024 * GiB
      then Some (Errorf ''memory must be between 64 MiB and 1 TiB'')
      else if Spec_DiskSize s < 64 * MiB \<or> Spec_DiskSize s > 1024 * GiB
      then Some (Errorf ''disk size must be between 64 MiB and 1 TiB'')
      else if Spec_PidsLimit s < 1 \<or> Spec_PidsLimit s > 1048576
      then Some (Errorf ''invalid pids limit'')
      else if Spec_Network s \<noteq> ''bridge'' \<and> Spec_Network s \<noteq> ''none''
      then Some (Errorf (''UnsupportedFeature: network '' @ go_quote (Spec_Network s)))
      else if Spec_Network s = ''none'' \<and> Spec_Ports s \<noteq> []
      then Some (Errorf ''cannot publish ports with network none'')
      else if Spec_Pull s \<noteq> ''always'' \<and> Spec_Pull s \<noteq> ''missing'' \<and> Spec_Pull s \<noteq> ''never''
      then Some (Errorf ''pull must be always, missing, or never'')
      else if Spec_Workdir s \<noteq> [] \<and> \<not> IsAbs (Spec_Workdir s)
      then Some (Errorf ''workdir must be absolute'')
      else case check_env (Spec_Env s) of Some e \<Rightarrow> Some e
      | None \<Rightarrow> (case check_ports {} (Spec_Ports s) of Some e \<Rightarrow> Some e
      | None \<Rightarrow> (if length (Spec_Mounts s) > 8
                then Some (Errorf ''at most eight named volumes are supported'')
                else check_mounts {} (Spec_Mounts s))))"

section \<open>ParsePort and ParseMount\<close>

definition ParsePort :: "string \<Rightarrow> Port result" where
  "ParsePort s =
     (let p0 = Split (TrimSuffix s ''/tcp'') (CHR '':'');
          p = (if length p0 = 2 then ''127.0.0.1'' # p0 else p0)
      in if length p \<noteq> 3
         then Inl (Errorf ''expected [HOST_IP:]HOST_PORT:CONTAINER_PORT[/tcp]'')
         else case Atoi (p ! 1) of Inl e \<Rightarrow> Inl e
         | Inr hp \<Rightarrow> (case Atoi (p ! 2) of Inl e \<Rightarrow> Inl e
         | Inr cp \<Rightarrow> Inr \<lparr>Port_HostIP = p ! 0, Port_HostPort = hp, Port_ContainerPort = cp\<rparr>))"

definition empty_mount :: Mount where
  "empty_mount = \<lparr>Mount_Name = [], Mount_Target = [], Mount_ReadOnly = False\<rparr>"

text \<open>The option loop of the \<open>type=volume,...\<close> form; it carries \<open>typ\<close> and the mount so far.\<close>

fun mount_opts :: "string \<times> Mount \<Rightarrow> string list \<Rightarrow> (string \<times> Mount) result" where
  "mount_opts (typ, m) [] = Inr (typ, m)"
| "mount_opts (typ, m) (v # vs) =
     (let (k, x, _) = Cut v (CHR ''='') in
      if k = ''type'' then mount_opts (x, m) vs
      else if k = ''src'' \<or> k = ''source'' then mount_opts (typ, m\<lparr>Mount_Name := x\<rparr>) vs
      else if k = ''dst'' \<or> k = ''target'' then mount_opts (typ, m\<lparr>Mount_Target := x\<rparr>) vs
      else if k = ''readonly'' then
        (if x \<noteq> [] \<and> x \<noteq> ''true'' then Inl (Errorf ''invalid readonly value'')
         else mount_opts (typ, m\<lparr>Mount_ReadOnly := True\<rparr>) vs)
      else Inl (Errorf (''unsupported mount option '' @ go_quote k)))"

definition mount_short :: "string \<Rightarrow> Mount result" where
  "mount_short s =
     (let p = Split s (CHR '':'') in
      if length p < 2 \<or> length p > 3 then Inl (Errorf ''expected NAME:/PATH[:ro]'')
      else let m = empty_mount\<lparr>Mount_Name := p ! 0, Mount_Target := p ! 1\<rparr> in
           if length p = 3 then
             (if p ! 2 \<noteq> ''ro'' then Inl (Errorf ''only ro mount option supported'')
              else Inr (m\<lparr>Mount_ReadOnly := True\<rparr>))
           else Inr m)"

definition mount_long :: "string \<Rightarrow> Mount result" where
  "mount_long s =
     bind_res (mount_opts ([], empty_mount) (Split s (CHR '','')))
       (\<lambda>(typ, m). if typ \<noteq> ''volume''
          then Inl (Errorf ''UnsupportedFeature: only named volumes; use cp for host files'')
          else Inr m)"

definition ParseMount :: "string \<Rightarrow> Mount result" where
  "ParseMount s =
     bind_res (if CHR ''='' \<notin> set s then mount_short s else mount_long s)
       (\<lambda>m. if \<not> ValidName (Mount_Name m)
            then Inl (Errorf ''host bind mounts unsupported; use a named volume or cp'')
            else Inr m)"

section \<open>MergeEnv and Resolve\<close>

definition env_key :: "string \<Rightarrow> string" where
  "env_key entry = fst (Cut entry (CHR ''=''))"

text \<open>The loop carries the output slice and the map from keys to positions in it.\<close>

fun merge_env_loop :: "string list \<Rightarrow> (string \<rightharpoonup> nat) \<Rightarrow> string list \<Rightarrow> string list" where
  "merge_env_loop out index [] = out"
| "merge_env_loop out index (entry # es) =
     (case index (env_key entry) of
        Some i \<Rightarrow> merge_env_loop (out[i := entry]) index es
      | None \<Rightarrow> merge_env_loop (out @ [entry]) (index(env_key entry \<mapsto> length out)) es)"

definition MergeEnv :: "string list \<Rightarrow> string list \<Rightarrow> string list" where
  "MergeEnv base override = merge_env_loop [] Map.empty (base @ override)"

definition resolve_args :: "Spec \<Rightarrow> ImageConfig \<Rightarrow> string list" where
  "resolve_args s c =
     (let entry = (case Spec_Entrypoint s of None \<Rightarrow> ImageConfig_Entrypoint c
                   | Some e \<Rightarrow> if e \<noteq> [] then [e] else []);
          cmd0 = (case Spec_Entrypoint s of None \<Rightarrow> ImageConfig_Cmd c | Some _ \<Rightarrow> []);
          cmd = (if Spec_Command s \<noteq> [] then Spec_Command s else cmd0)
      in entry @ cmd)"

definition Resolve :: "Spec \<Rightarrow> ImageConfig \<Rightarrow> Process result" where
  "Resolve s c =
     (let args = resolve_args s c;
          user = (if Spec_User s \<noteq> [] then Spec_User s else ImageConfig_User c);
          cwd0 = (if Spec_Workdir s \<noteq> [] then Spec_Workdir s else ImageConfig_WorkingDir c);
          cwd = (if cwd0 = [] then ''/'' else cwd0);
          stop = (if ImageConfig_StopSignal c = [] then ''SIGTERM'' else ImageConfig_StopSignal c)
      in if args = [] then Inl (Errorf ''image has no command; specify COMMAND'')
         else if list_ex (\<lambda>a. CHR 0x00 \<in> set a) args then Inl (Errorf ''NUL in argument'')
         else if \<not> IsAbs cwd then Inl (Errorf ''image working directory is not absolute'')
         else Inr \<lparr>Process_Args = args, Process_Env = MergeEnv (ImageConfig_Env c) (Spec_Env s),
                   Process_User = user, Process_Cwd = cwd, Process_StopSignal = stop,
                   Process_TTY = Spec_TTY s, Process_Interactive = Spec_Interactive s\<rparr>)"

section \<open>What an accepted specification promises\<close>

text \<open>
  The declarative reading of \<open>Validate\<close>: bounds on the resources, well-formed environment
  entries, published ports that are in range and pairwise distinct, and volume mounts
  whose targets are cleaned absolute paths outside the reserved trees, with no volume and
  no target named twice. \<open>below r t\<close> says that path \<open>t\<close> is \<open>r\<close> or lies inside it.
\<close>

definition below :: "string \<Rightarrow> string \<Rightarrow> bool" where
  "below r t \<longleftrightarrow> prefix (clean_elems r) (clean_elems t)"

definition wf_env :: "string \<Rightarrow> bool" where
  "wf_env e \<longleftrightarrow> (\<exists>k v. e = k @ CHR ''='' # v \<and> k \<noteq> [] \<and> CHR ''='' \<notin> set k) \<and> CHR 0x00 \<notin> set e"

definition wf_port :: "Port \<Rightarrow> bool" where
  "wf_port p \<longleftrightarrow> Port_HostIP p \<in> {''127.0.0.1'', ''0.0.0.0''} \<and>
     Port_HostPort p \<in> {1..65535} \<and> Port_ContainerPort p \<in> {1..65535}"

definition wf_mount :: "Mount \<Rightarrow> bool" where
  "wf_mount m \<longleftrightarrow> ValidName (Mount_Name m) \<and> IsAbs (Mount_Target m) \<and>
     Clean (Mount_Target m) = Mount_Target m \<and> Mount_Target m \<noteq> ''/'' \<and>
     (\<forall>r \<in> set reserved_targets. \<not> below r (Mount_Target m))"

definition wf_limits :: "Spec \<Rightarrow> bool" where
  "wf_limits s \<longleftrightarrow> Spec_CPUs s \<in> {1..32} \<and> Spec_Memory s \<in> {64 * MiB..1024 * GiB} \<and>
     Spec_DiskSize s \<in> {64 * MiB..1024 * GiB} \<and> Spec_PidsLimit s \<in> {1..1048576}"

definition wf_spec :: "Spec \<Rightarrow> bool" where
  "wf_spec s \<longleftrightarrow>
     Spec_Image s \<noteq> [] \<and> (Spec_Name s = [] \<or> ValidName (Spec_Name s)) \<and>
     Spec_Runtime s = ''runc'' \<and> Spec_Platform s = ''linux/amd64'' \<and> wf_limits s \<and>
     (Spec_Network s = ''bridge'' \<or> Spec_Network s = ''none'' \<and> Spec_Ports s = []) \<and>
     Spec_Pull s \<in> {''always'', ''missing'', ''never''} \<and>
     (Spec_Workdir s = [] \<or> IsAbs (Spec_Workdir s)) \<and>
     (\<forall>e \<in> set (Spec_Env s). wf_env e) \<and>
     (\<forall>p \<in> set (Spec_Ports s). wf_port p) \<and> distinct (map Port_HostPort (Spec_Ports s)) \<and>
     length (Spec_Mounts s) \<le> 8 \<and> (\<forall>m \<in> set (Spec_Mounts s). wf_mount m) \<and>
     distinct (map Mount_Target (Spec_Mounts s)) \<and> distinct (map Mount_Name (Spec_Mounts s))"

text \<open>The value of a key in an environment: the last entry for it wins.\<close>

definition env_lookup :: "string list \<Rightarrow> string \<Rightarrow> string option" where
  "env_lookup es k = find (\<lambda>e. env_key e = k) (rev es)"

section \<open>Helper lemmas\<close>

lemma join_prefix_iff:
  assumes "norm_segs False rs" "norm_segs False ts" "rs \<noteq> []"
  shows "join_with (CHR ''/'') ts = join_with (CHR ''/'') rs \<or>
         prefix (join_with (CHR ''/'') rs @ ''/'') (join_with (CHR ''/'') ts) \<longleftrightarrow> prefix rs ts"
    (is "?e \<or> ?p \<longleftrightarrow> _")
proof
  let ?j = "join_with (CHR ''/'')"
  have sp: "Split (?j xs) (CHR ''/'') = xs" if "norm_segs False xs" "xs \<noteq> []" for xs
    using that norm_segs_no_slash by (intro Split_join) auto
  assume "?e \<or> ?p"
  then show "prefix rs ts"
  proof
    assume e: ?e
    then have "ts \<noteq> []" using join_with_Nil_iff [OF assms(1), of "CHR ''/''"] assms(3)
      by (metis join_with.simps(1))
    then have "ts = Split (?j rs) (CHR ''/'')" using sp [OF assms(2)] e by simp
    then show ?thesis using sp [OF assms(1,3)] by simp
  next
    assume ?p
    then obtain u where u: "?j ts = ?j rs @ CHR ''/'' # u" by (auto simp: prefix_def)
    then have "ts \<noteq> []" by auto
    then have "ts = Split (?j rs @ CHR ''/'' # u) (CHR ''/'')" using sp [OF assms(2)] u by simp
    then show ?thesis using sp [OF assms(1,3)] by (simp add: Split_app)
  qed
next
  assume "prefix rs ts"
  then obtain us where "ts = rs @ us" by (auto simp: prefix_def)
  with assms(3) show "?e \<or> ?p"
    by (cases "us = []") (auto simp: join_app prefix_def)
qed

lemma Clean_fixed_abs:
  assumes "IsAbs t" "Clean t = t"
  shows "t = CHR ''/'' # join_with (CHR ''/'') (clean_elems t)"
proof -
  have "Clean t = CHR ''/'' # join_with (CHR ''/'') (clean_elems t)"
    using assms(1) by (cases "t = []") (auto simp: Clean_alt Let_def)
  from trans [OF assms(2) [symmetric] this] show ?thesis .
qed

lemma below_iff:
  assumes "IsAbs t" "Clean t = t" "IsAbs r" "Clean r = r" "clean_elems r \<noteq> []"
  shows "t = r \<or> HasPrefix t (r @ ''/'') \<longleftrightarrow> below r t"
proof -
  let ?j = "join_with (CHR ''/'')"
  obtain tb rb where tb: "?j (clean_elems t) = tb" and rb: "?j (clean_elems r) = rb" by blast
  have t: "t = CHR ''/'' # tb" and r: "r = CHR ''/'' # rb"
    using Clean_fixed_abs [OF assms(1,2)] Clean_fixed_abs [OF assms(3,4)] unfolding tb rb .
  have "norm_segs False (clean_elems t)" "norm_segs False (clean_elems r)"
    using clean_elems_norm [of t] clean_elems_norm [of r] assms by auto
  from join_prefix_iff [OF this(2,1) assms(5)]
  have "tb = rb \<or> prefix (rb @ ''/'') tb \<longleftrightarrow> below r t" unfolding tb rb below_def .
  moreover have "t = r \<longleftrightarrow> tb = rb" unfolding t r by simp
  moreover have "HasPrefix t (r @ ''/'') \<longleftrightarrow> prefix (rb @ ''/'') tb"
    unfolding t r HasPrefix_def by simp
  ultimately show ?thesis by blast
qed

lemma reserved_ok:
  "r \<in> set reserved_targets \<Longrightarrow> IsAbs r \<and> Clean r = r \<and> clean_elems r \<noteq> []"
  by (auto simp: reserved_targets_def Clean_def Let_def)

lemma wf_env_iff:
  "wf_env e \<longleftrightarrow> (case Cut e (CHR ''='') of (k, _, ok) \<Rightarrow> ok \<and> k \<noteq> [] \<and> CHR 0x00 \<notin> set e)"
proof (cases "CHR ''='' \<in> set e")
  case True
  then obtain k v where e: "e = k @ CHR ''='' # v" "CHR ''='' \<notin> set k"
    by (meson split_list_first)
  have "k' = k" if "e = k' @ CHR ''='' # v'" "CHR ''='' \<notin> set k'" for k' v'
    using Cut_append [OF that(2), of v'] Cut_append [OF e(2), of v] that(1) e(1) by simp
  moreover have "Cut e (CHR ''='') = (k, v, True)" using e by simp
  ultimately show ?thesis unfolding wf_env_def using e by auto
next
  case False
  then show ?thesis by (auto simp: wf_env_def)
qed

lemma check_env_iff: "check_env es = None \<longleftrightarrow> (\<forall>e \<in> set es. wf_env e)"
  by (induction es) (auto simp: wf_env_iff split: prod.splits)

lemma Itoa_inj: "in_int64 i \<Longrightarrow> in_int64 j \<Longrightarrow> Itoa i = Itoa j \<longleftrightarrow> i = j"
  by (metis Inr_inject ParseInt_Itoa)

lemma in_int64_port: "0 < i \<Longrightarrow> i \<le> 65535 \<Longrightarrow> in_int64 i"
  by (rule in_int64I) auto

lemma check_ports_Cons:
  "check_ports seen (p # ps) = None \<longleftrightarrow>
     wf_port p \<and> Itoa (Port_HostPort p) \<notin> seen \<and>
     check_ports (insert (Itoa (Port_HostPort p)) seen) ps = None"
  by (auto simp: wf_port_def Let_def)

lemma check_ports_iff:
  "seen = Itoa ` S \<Longrightarrow> S \<subseteq> {1..65535} \<Longrightarrow>
   check_ports seen ps = None \<longleftrightarrow>
     (\<forall>p \<in> set ps. wf_port p \<and> Port_HostPort p \<notin> S) \<and> distinct (map Port_HostPort ps)"
proof (induction ps arbitrary: seen S)
  case (Cons p ps)
  let ?h = "Port_HostPort p"
  have mem: "Itoa ?h \<in> seen \<longleftrightarrow> ?h \<in> S" if "wf_port p"
    using that Cons.prems by (auto simp: wf_port_def Itoa_inj in_int64_port subset_iff)
  have ih: "check_ports (insert (Itoa ?h) seen) ps = None \<longleftrightarrow>
      (\<forall>p \<in> set ps. wf_port p \<and> Port_HostPort p \<notin> insert ?h S) \<and>
      distinct (map Port_HostPort ps)" if "wf_port p"
  proof (rule Cons.IH)
    show "insert (Itoa ?h) seen = Itoa ` insert ?h S" unfolding Cons.prems(1) by blast
    show "insert ?h S \<subseteq> {1..65535}" using that Cons.prems(2) by (simp add: wf_port_def)
  qed
  show ?case
  proof (cases "wf_port p")
    case True
    then show ?thesis
      unfolding check_ports_Cons distinct_map_Cons mem [OF True] ih [OF True] by auto
  next
    case False
    then show ?thesis unfolding check_ports_Cons by simp
  qed
qed simp

lemma wf_mount_iff:
  "wf_mount m \<longleftrightarrow>
     ValidName (Mount_Name m) \<and> IsAbs (Mount_Target m) \<and>
     Clean (Mount_Target m) = Mount_Target m \<and> Mount_Target m \<noteq> ''/'' \<and>
     \<not> list_ex (\<lambda>r. Mount_Target m = r \<or> HasPrefix (Mount_Target m) (r @ ''/'')) reserved_targets"
proof (cases "IsAbs (Mount_Target m) \<and> Clean (Mount_Target m) = Mount_Target m")
  case True
  then have "below r (Mount_Target m) \<longleftrightarrow>
      Mount_Target m = r \<or> HasPrefix (Mount_Target m) (r @ ''/'')"
    if "r \<in> set reserved_targets" for r
    using below_iff [of "Mount_Target m" r] reserved_ok [OF that] by simp
  then show ?thesis by (simp add: wf_mount_def list_ex_iff)
qed (auto simp: wf_mount_def)

lemma check_mounts_Cons:
  "check_mounts seen (m # ms) = None \<longleftrightarrow>
     wf_mount m \<and> Mount_Target m \<notin> seen \<and> ''name:'' @ Mount_Name m \<notin> seen \<and>
     check_mounts (insert (''name:'' @ Mount_Name m) (insert (Mount_Target m) seen)) ms = None"
  unfolding wf_mount_iff by simp

lemma target_mem: "IsAbs t \<Longrightarrow> t \<in> T \<union> (\<lambda>n. ''name:'' @ n) ` N \<longleftrightarrow> t \<in> T"
  by auto

lemma name_mem:
  assumes "\<And>t. t \<in> T \<Longrightarrow> IsAbs t"
  shows "''name:'' @ n \<in> T \<union> (\<lambda>n. ''name:'' @ n) ` N \<longleftrightarrow> n \<in> N"
proof -
  have "''name:'' @ n \<notin> T" using assms [of "''name:'' @ n"] by auto
  then show ?thesis by auto
qed

lemma check_mounts_iff:
  "seen = T \<union> (\<lambda>n. ''name:'' @ n) ` N \<Longrightarrow> (\<And>t. t \<in> T \<Longrightarrow> IsAbs t) \<Longrightarrow>
   check_mounts seen ms = None \<longleftrightarrow>
     (\<forall>m \<in> set ms. wf_mount m \<and> Mount_Target m \<notin> T \<and> Mount_Name m \<notin> N) \<and>
     distinct (map Mount_Target ms) \<and> distinct (map Mount_Name ms)"
proof (induction ms arbitrary: seen T N)
  case (Cons m ms)
  let ?t = "Mount_Target m" and ?n = "Mount_Name m"
  have mem1: "wf_mount m \<Longrightarrow> ?t \<in> seen \<longleftrightarrow> ?t \<in> T"
    unfolding Cons.prems(1) by (rule target_mem) (simp add: wf_mount_def)
  have mem2: "''name:'' @ ?n \<in> seen \<longleftrightarrow> ?n \<in> N"
    unfolding Cons.prems(1) using Cons.prems(2) by (rule name_mem)
  have ih: "check_mounts (insert (''name:'' @ ?n) (insert ?t seen)) ms = None \<longleftrightarrow>
      (\<forall>m \<in> set ms. wf_mount m \<and> Mount_Target m \<notin> insert ?t T \<and> Mount_Name m \<notin> insert ?n N) \<and>
      distinct (map Mount_Target ms) \<and> distinct (map Mount_Name ms)" if "wf_mount m"
  proof (rule Cons.IH)
    show "insert (''name:'' @ ?n) (insert ?t seen) =
        insert ?t T \<union> (\<lambda>n. ''name:'' @ n) ` insert ?n N"
      unfolding Cons.prems(1) by blast
    show "IsAbs t" if "t \<in> insert ?t T" for t
      using that \<open>wf_mount m\<close> Cons.prems(2) by (auto simp: wf_mount_def)
  qed
  show ?case
  proof (cases "wf_mount m")
    case True
    then show ?thesis
      unfolding check_mounts_Cons distinct_map_Cons mem1 [OF True] mem2 ih [OF True] by auto
  next
    case False
    then show ?thesis unfolding check_mounts_Cons by simp
  qed
qed simp

lemma wf_env_keys: "wf_env e \<Longrightarrow> env_key e \<noteq> []"
  by (auto simp: wf_env_def env_key_def)

text \<open>The invariant of the merge loop: positions and keys agree.\<close>

definition merge_inv :: "string list \<Rightarrow> (string \<rightharpoonup> nat) \<Rightarrow> bool" where
  "merge_inv out index \<longleftrightarrow>
     (\<forall>k i. index k = Some i \<longleftrightarrow> i < length out \<and> env_key (out ! i) = k)"

lemma map_replace_key:
  "i < length xs \<Longrightarrow> f (xs ! i) = f x \<Longrightarrow> map f (xs[i := x]) = map f xs"
  by (simp add: map_update) (metis list_update_id nth_map)

lemma merge_inv_replace:
  assumes "merge_inv out index" "index (env_key x) = Some i"
  shows "merge_inv (out[i := x]) index" "map env_key (out[i := x]) = map env_key out"
proof -
  have i: "i < length out" "env_key (out ! i) = env_key x"
    using assms by (auto simp: merge_inv_def)
  then show k: "map env_key (out[i := x]) = map env_key out"
    by (rule map_replace_key)
  have "env_key (out[i := x] ! j) = env_key (out ! j)" if "j < length out" for j
    using that k by (metis length_list_update nth_map)
  with assms(1) show "merge_inv (out[i := x]) index" by (auto simp: merge_inv_def)
qed

lemma merge_inv_add:
  assumes "merge_inv out index" "index (env_key x) = None"
  shows "merge_inv (out @ [x]) (index(env_key x \<mapsto> length out))"
  unfolding merge_inv_def
proof (intro allI)
  fix k i
  have "index (env_key x) \<noteq> Some i" using assms(2) by simp
  then have "i < length out \<Longrightarrow> env_key (out ! i) \<noteq> env_key x"
    using assms(1) by (auto simp: merge_inv_def)
  then show "(index(env_key x \<mapsto> length out)) k = Some i \<longleftrightarrow>
      i < length (out @ [x]) \<and> env_key ((out @ [x]) ! i) = k"
    using assms(1) by (auto simp: merge_inv_def nth_append)
qed

lemma merge_inv_dom: "merge_inv out index \<Longrightarrow> index k = None \<longleftrightarrow> k \<notin> env_key ` set out"
proof -
  assume "merge_inv out index"
  then have "(\<exists>i. index k = Some i) \<longleftrightarrow> k \<in> env_key ` set out"
    by (auto simp: merge_inv_def) (metis in_set_conv_nth)
  then show ?thesis by (cases "index k") auto
qed

definition first_keys :: "string list \<Rightarrow> string list" where
  "first_keys ks = rev (remdups (rev ks))"

lemma first_keys_snoc:
  "first_keys (ks @ [k]) = (if k \<in> set ks then first_keys ks else first_keys ks @ [k])"
  by (simp add: first_keys_def)

lemma first_keys_set [simp]: "set (first_keys ks) = set ks"
  by (simp add: first_keys_def)

lemma env_lookup_snoc:
  "env_lookup (es @ [x]) k = (if env_key x = k then Some x else env_lookup es k)"
  by (simp add: env_lookup_def)

lemma env_lookup_distinct:
  assumes "distinct (map env_key es)" "i < length es"
  shows "env_lookup es (env_key (es ! i)) = Some (es ! i)"
proof -
  have "distinct (map env_key (rev es))" using assms(1) by (simp add: rev_map [symmetric])
  then show ?thesis
    using assms(2) unfolding env_lookup_def by (intro find_Some_iff_unique) auto
qed

lemma env_lookup_None: "env_lookup es k = None \<longleftrightarrow> k \<notin> env_key ` set es"
  by (simp add: env_lookup_def find_None_map)

lemma env_lookup_replace:
  assumes "distinct (map env_key es)" "i < length es" "env_key (es ! i) = env_key x"
  shows "env_lookup (es[i := x]) k = (if env_key x = k then Some x else env_lookup es k)"
proof -
  have m: "map env_key (es[i := x]) = map env_key es"
    using assms(2,3) by (rule map_replace_key)
  have d: "distinct (map env_key (es[i := x]))" unfolding m by (rule assms(1))
  have ks: "env_key ` set (es[i := x]) = env_key ` set es"
    using arg_cong [OF m, of set] by simp
  show ?thesis
  proof (cases "k \<in> env_key ` set es")
    case False
    then have "env_lookup es k = None" "env_lookup (es[i := x]) k = None"
      using ks by (simp_all add: env_lookup_None)
    moreover have "env_key x \<noteq> k" using False nth_mem [OF assms(2)] assms(3) by (metis imageI)
    ultimately show ?thesis by simp
  next
    case True
    then obtain j where j: "j < length es" "env_key (es ! j) = k"
      by (auto simp: in_set_conv_nth)
    have kj: "env_key (es[i := x] ! j) = k"
      using j arg_cong [OF m, of "\<lambda>l. l ! j"] by simp
    have "env_lookup (es[i := x]) k = Some (es[i := x] ! j)"
      using env_lookup_distinct [OF d, of j] j(1) kj by simp
    moreover have "env_lookup es k = Some (es ! j)"
      using env_lookup_distinct [OF assms(1) j(1)] j(2) by simp
    moreover have "env_key x = k \<longleftrightarrow> j = i"
      using nth_eq_iff_index_eq [OF assms(1), of j i] assms j by auto
    ultimately show ?thesis using assms(2) by auto
  qed
qed

text \<open>What one run of the loop adds to the output.\<close>

lemma merge_env_loop_spec:
  assumes "merge_inv out index" "distinct (map env_key out)"
    "map env_key out = first_keys (map env_key seen)"
    "\<And>k. env_lookup out k = env_lookup seen k"
  shows "map env_key (merge_env_loop out index es) = first_keys (map env_key (seen @ es)) \<and>
     (\<forall>k. env_lookup (merge_env_loop out index es) k = env_lookup (seen @ es) k)"
  using assms
proof (induction es arbitrary: out index seen)
  case (Cons x es)
  note prems = Cons.prems
  have same: "set (map env_key out) = set (map env_key seen)"
    unfolding prems(3) by simp
  show ?case
  proof (cases "index (env_key x)")
    case None
    then have new: "env_key x \<notin> set (map env_key out)"
      using merge_inv_dom [OF prems(1)] by simp
    have d: "distinct (map env_key (out @ [x]))" using new prems(2) by simp
    have m: "map env_key (out @ [x]) = first_keys (map env_key (seen @ [x]))"
      using new same prems(3) by (simp add: first_keys_snoc)
    have l: "env_lookup (out @ [x]) k = env_lookup (seen @ [x]) k" for k
      by (simp add: env_lookup_snoc prems(4))
    from Cons.IH [OF merge_inv_add [OF prems(1) None] d m l] None show ?thesis
      by (simp del: fun_upd_apply)
  next
    case (Some i)
    note r = merge_inv_replace [OF prems(1) Some]
    have i: "i < length out" "env_key (out ! i) = env_key x"
      using Some prems(1) by (auto simp: merge_inv_def)
    then have old: "env_key x \<in> set (map env_key seen)"
      unfolding same [symmetric] by (metis length_map nth_map nth_mem)
    have d: "distinct (map env_key (out[i := x]))" unfolding r(2) by (rule prems(2))
    have m: "map env_key (out[i := x]) = first_keys (map env_key (seen @ [x]))"
      unfolding r(2) using old prems(3) by (simp add: first_keys_snoc)
    have l: "env_lookup (out[i := x]) k = env_lookup (seen @ [x]) k" for k
      using env_lookup_replace [OF prems(2) i] by (simp add: env_lookup_snoc prems(4))
    from Cons.IH [OF r(1) d m l] Some show ?thesis by simp
  qed
qed simp

lemma rev_suffix_test:
  "HasSuffix (ds @ x # u) v \<longleftrightarrow> prefix (rev v) (rev u @ x # rev ds)"
  by (simp add: HasSuffix_def suffix_to_prefix)

lemma TrimSuffix_append: "TrimSuffix (s @ u) u = s"
  by (simp add: TrimSuffix_def HasSuffix_def suffix_def)

lemma ToLower_digits: "(\<And>c. c \<in> set s \<Longrightarrow> is_digit c) \<Longrightarrow> ToLower s = s"
  unfolding ToLower_def by (rule map_idI) (force simp: to_lower_def is_digit_def Let_def)

lemma TrimSpace_id: "s \<noteq> [] \<Longrightarrow> \<not> is_space (hd s) \<Longrightarrow> \<not> is_space (last s) \<Longrightarrow> TrimSpace s = s"
proof -
  assume a: "s \<noteq> []" "\<not> is_space (hd s)" "\<not> is_space (last s)"
  then have "dropWhile is_space s = s" "dropWhile is_space (rev s) = rev s"
    by (simp_all add: dropWhile_eq_self_iff hd_rev)
  then show ?thesis by (simp add: TrimSpace_def)
qed

lemma unit_props:
  "(u, n) \<in> set size_units \<Longrightarrow> ToLower u = u \<and> u \<noteq> [] \<and> \<not> is_space (last u) \<and> 0 < n"
  by (auto simp: size_units_def ToLower_def to_lower_def is_space_def Let_def GiB_def MiB_def)

lemma TrimSuffix_snoc: "TrimSuffix (ds @ x # v) v = ds @ [x]"
  using TrimSuffix_append [of "ds @ [x]" v] by simp

lemma strip_unit_append:
  assumes "is_digit x" "(u, n) \<in> set size_units"
  shows "strip_unit size_units ((ds @ [x]) @ u) = (ds @ [x], n)"
proof -
  have "CHR ''i'' \<noteq> x" "CHR ''g'' \<noteq> x" "CHR ''m'' \<noteq> x" "CHR ''k'' \<noteq> x" "CHR ''b'' \<noteq> x"
    using assms(1) by (auto simp: is_digit_def)
  then have "list_all (\<lambda>(u, n). strip_unit size_units (ds @ x # u) = (ds @ [x], n)) size_units"
    by (simp add: size_units_def rev_suffix_test TrimSuffix_snoc)
  with assms(2) show ?thesis by (auto simp: list_all_iff)
qed

lemma strip_unit_in: "strip_unit us s = (t, m) \<Longrightarrow> m = 1 \<or> m \<in> snd ` set us"
  by (induction us s rule: strip_unit.induct) (auto split: if_splits)

lemma itoa_snoc: "\<exists>ds x. itoa_nat n = ds @ [x] \<and> is_digit x"
proof -
  have "itoa_nat n = butlast (itoa_nat n) @ [last (itoa_nat n)]" by simp
  moreover have "is_digit (last (itoa_nat n))" by (rule itoa_nat_digits [of _ n]) simp
  ultimately show ?thesis by blast
qed

section \<open>Properties\<close>

text \<open>C1. \<open>Spec.Validate\<close> accepts exactly the specifications that satisfy the declarative
  contract \<open>wf_spec\<close>: the loops over the environment, the published ports and the mounts,
  with their \<open>seen\<close> maps, enforce pairwise distinct host ports, volumes and targets, and
  the reserved-prefix test on strings excludes exactly the targets that lie, element by
  element, at or below /proc, /sys, /dev or /run/niflhel.\<close>

theorem Validate_correct: "Validate s = None \<longleftrightarrow> wf_spec s"
proof -
  have "check_ports {} (Spec_Ports s) = None \<longleftrightarrow>
      (\<forall>p \<in> set (Spec_Ports s). wf_port p) \<and> distinct (map Port_HostPort (Spec_Ports s))"
    using check_ports_iff [of "{}" "{}" "Spec_Ports s"] by simp
  moreover have "check_mounts {} (Spec_Mounts s) = None \<longleftrightarrow>
      (\<forall>m \<in> set (Spec_Mounts s). wf_mount m) \<and>
      distinct (map Mount_Target (Spec_Mounts s)) \<and> distinct (map Mount_Name (Spec_Mounts s))"
    using check_mounts_iff [of "{}" "{}" "{}" "Spec_Mounts s"] by simp
  moreover have "\<not> (Spec_Network s = ''bridge'' \<and> Spec_Network s = ''none'')" by auto
  ultimately show ?thesis
    unfolding Validate_def guard_simps wf_spec_def wf_limits_def check_env_iff
      atLeastAtMost_iff insert_iff empty_iff not_less de_Morgan_disj
    by argo
qed

text \<open>C2. \<open>MergeEnv\<close> keeps one entry per key, in the order in which the keys first occur in
  the base and then the override, and the entry kept for a key is the last one given for
  it: the overriding value where there is one.\<close>

theorem MergeEnv_correct:
  "map env_key (MergeEnv base override) = first_keys (map env_key (base @ override)) \<and>
   distinct (map env_key (MergeEnv base override)) \<and>
   env_lookup (MergeEnv base override) k = env_lookup (base @ override) k"
proof -
  have "merge_inv [] Map.empty" by (simp add: merge_inv_def)
  from merge_env_loop_spec [OF this, of "[]" "base @ override"] show ?thesis
    by (simp add: MergeEnv_def first_keys_def env_lookup_def)
qed

text \<open>C3. A process that \<open>Resolve\<close> produces is runnable: it has at least one argument, no
  argument contains a NUL byte, its working directory is absolute and its stop signal is
  set; the entry point and command follow the override rules (an entry point given on the
  command line also discards the image's default command), and the user and the working
  directory of the specification win over those of the image.\<close>

theorem Resolve_correct:
  assumes "Resolve s c = Inr p"
  shows "Process_Args p \<noteq> [] \<and> list_all (\<lambda>a. CHR 0x00 \<notin> set a) (Process_Args p) \<and>
    IsAbs (Process_Cwd p) \<and> Process_StopSignal p \<noteq> [] \<and>
    Process_Args p =
      (case Spec_Entrypoint s of
         None \<Rightarrow> ImageConfig_Entrypoint c @
           (if Spec_Command s = [] then ImageConfig_Cmd c else Spec_Command s)
       | Some e \<Rightarrow> (if e = [] then [] else [e]) @ Spec_Command s) \<and>
    Process_User p = (if Spec_User s = [] then ImageConfig_User c else Spec_User s) \<and>
    Process_Cwd p = (if Spec_Workdir s \<noteq> [] then Spec_Workdir s
      else if ImageConfig_WorkingDir c \<noteq> [] then ImageConfig_WorkingDir c else ''/'')"
proof -
  from assms have ok: "resolve_args s c \<noteq> []" "\<not> list_ex (\<lambda>a. CHR 0x00 \<in> set a) (resolve_args s c)"
    "IsAbs (Process_Cwd p)" "Process_Args p = resolve_args s c"
    "Process_User p = (if Spec_User s = [] then ImageConfig_User c else Spec_User s)"
    "Process_StopSignal p \<noteq> []"
    "Process_Cwd p = (if Spec_Workdir s \<noteq> [] then Spec_Workdir s
      else if ImageConfig_WorkingDir c \<noteq> [] then ImageConfig_WorkingDir c else ''/'')"
    unfolding Resolve_def Let_def guard_simps by (auto split: if_splits)
  have args: "resolve_args s c = (case Spec_Entrypoint s of
         None \<Rightarrow> ImageConfig_Entrypoint c @
           (if Spec_Command s = [] then ImageConfig_Cmd c else Spec_Command s)
       | Some e \<Rightarrow> (if e = [] then [] else [e]) @ Spec_Command s)"
    by (simp add: resolve_args_def split: option.split)
  show ?thesis
    using ok args by (simp only: list_all_iff list_ex_iff) blast
qed

theorem Resolve_correct_witness:
  "Resolve (DefaultSpec\<lparr>Spec_Command := [''sh'']\<rparr>) \<lparr>ImageConfig_Entrypoint = [''/init''],
      ImageConfig_Cmd = [''serve''], ImageConfig_Env = [], ImageConfig_User = [],
      ImageConfig_WorkingDir = [], ImageConfig_StopSignal = [], ImageConfig_Volumes = [],
      ImageConfig_Healthcheck = False\<rparr> =
    Inr \<lparr>Process_Args = [''/init'', ''sh''], Process_Env = [], Process_User = [],
      Process_Cwd = ''/'', Process_StopSignal = ''SIGTERM'', Process_TTY = False,
      Process_Interactive = False\<rparr> \<and> IsAbs ''/''"
proof -
  let ?c = "\<lparr>ImageConfig_Entrypoint = [''/init''],
      ImageConfig_Cmd = [''serve''], ImageConfig_Env = [], ImageConfig_User = [],
      ImageConfig_WorkingDir = [], ImageConfig_StopSignal = [], ImageConfig_Volumes = [],
      ImageConfig_Healthcheck = False\<rparr>"
  have r: "Resolve (DefaultSpec\<lparr>Spec_Command := [''sh'']\<rparr>) ?c =
    Inr \<lparr>Process_Args = [''/init'', ''sh''], Process_Env = [], Process_User = [],
      Process_Cwd = ''/'', Process_StopSignal = ''SIGTERM'', Process_TTY = False,
      Process_Interactive = False\<rparr>"
    by (simp add: Resolve_def resolve_args_def DefaultSpec_def MergeEnv_def Let_def)
  from Resolve_correct [OF r] r show ?thesis by simp
qed



end
