(* ===== verification/StateStore.thy ===== *)
theory StateStore
  imports Api "HOL-Library.Multiset"
begin

text \<open>
  The metadata store, src/internal/state/store.go.  The SQLite database is its three tables:
  \<open>sandboxes(id PRIMARY KEY, name UNIQUE, body)\<close>, \<open>volumes(name PRIMARY KEY, body)\<close> and
  \<open>events(seq AUTOINCREMENT, id, action, at)\<close>, each a list of rows in insertion order.  A body
  is the value that was marshalled (the JSON round trip of these structs is the identity on
  the values the daemon stores).  Every statement can fail: a \<open>driver\<close> gives the error the
  database driver reports for each statement of one call, and a failed statement, like a
  transaction that is rolled back, leaves the tables as they were.  The clock is an argument.

  The theory shows that the operations implement a finite map from IDs to records
  (\<open>sandbox_of\<close>) and from names to volumes (\<open>volume_of\<close>), through the interface \<open>row_store\<close>,
  that a failed operation changes nothing, how \<open>Get\<close> resolves a reference, and which states
  \<open>Transition\<close> connects.
\<close>

section \<open>Tables and driver\<close>

datatype stmt =
    Begin | Commit | SelectBodies | SelectBody | InsertSandbox | InsertEvent | UpdateBody
  | DeleteSandbox | SelectVolumes | SelectVolume | InsertVolume | DeleteVolumeRow

type_synonym driver = "stmt \<Rightarrow> error option"

record sandbox_row =
  row_id :: string
  row_name :: string
  row_body :: Sandbox

record volume_row =
  vol_name :: string
  vol_body :: Volume

record event_row =
  ev_seq :: nat
  ev_id :: string
  ev_action :: string
  ev_at :: int

record Store =
  Store_sandboxes :: "sandbox_row list"
  Store_volumes :: "volume_row list"
  Store_events :: "event_row list"

definition empty_store :: Store where
  "empty_store = \<lparr>Store_sandboxes = [], Store_volumes = [], Store_events = []\<rparr>"

definition add_event :: "int \<Rightarrow> string \<Rightarrow> string \<Rightarrow> Store \<Rightarrow> Store" where
  "add_event now sid action st = st\<lparr>Store_events := Store_events st @
     [\<lparr>ev_seq = Suc (foldr max (map ev_seq (Store_events st)) 0), ev_id = sid, ev_action = action, ev_at = now\<rparr>]\<rparr>"

section \<open>Operations\<close>

definition List_sandboxes :: "driver \<Rightarrow> Store \<Rightarrow> Sandbox list result" where
  "List_sandboxes db st =
     (case db SelectBodies of
        Some e \<Rightarrow> Inl e
      | None \<Rightarrow> Inr (map row_body (sort_key row_name (Store_sandboxes st))))"

definition Get :: "driver \<Rightarrow> Store \<Rightarrow> string \<Rightarrow> Sandbox result" where
  "Get db st ref =
     (case List_sandboxes db st of
        Inl e \<Rightarrow> Inl e
      | Inr all \<Rightarrow>
          (case find (\<lambda>v. Sandbox_ID v = ref \<or> Sandbox_Name v = ref) all of
             Some v \<Rightarrow> Inr v
           | None \<Rightarrow>
               (let found = filter (\<lambda>v. ref \<noteq> [] \<and> HasPrefix (Sandbox_ID v) ref) all in
                if length found = 1 then Inr (found ! 0)
                else if length found > 1 then Inl (ErrConflict ''ambiguous ID'')
                else Inl ErrNotFound)))"

definition Create_row :: "driver \<Rightarrow> int \<Rightarrow> Store \<Rightarrow> Sandbox \<Rightarrow> Store \<times> error option" where
  "Create_row db now st v =
     (case db Begin of Some e \<Rightarrow> (st, Some e) | None \<Rightarrow>
      (case db InsertSandbox of
         Some e \<Rightarrow> (st, Some (ErrConflict (''name/ID already exists: '' @ error_text e)))
       | None \<Rightarrow>
      if list_ex (\<lambda>r. row_id r = Sandbox_ID v \<or> row_name r = Sandbox_Name v) (Store_sandboxes st)
      then (st, Some (ErrConflict ''name/ID already exists: UNIQUE constraint failed''))
      else case db InsertEvent of Some e \<Rightarrow> (st, Some e) | None \<Rightarrow>
      (case db Commit of Some e \<Rightarrow> (st, Some e) | None \<Rightarrow>
        (add_event now (Sandbox_ID v) ''create''
           (st\<lparr>Store_sandboxes := Store_sandboxes st @
              [\<lparr>row_id = Sandbox_ID v, row_name = Sandbox_Name v, row_body = v\<rparr>]\<rparr>), None))))"

definition set_body :: "string \<Rightarrow> Sandbox \<Rightarrow> sandbox_row \<Rightarrow> sandbox_row" where
  "set_body sid v r = (if row_id r = sid then r\<lparr>row_body := v\<rparr> else r)"

definition Update :: "driver \<Rightarrow> int \<Rightarrow> Store \<Rightarrow> string \<Rightarrow> (Sandbox \<Rightarrow> Sandbox result) \<Rightarrow> Store \<times> error option" where
  "Update db now st sid fn =
     (case db Begin of Some e \<Rightarrow> (st, Some e) | None \<Rightarrow>
      (case db SelectBody of Some e \<Rightarrow> (st, Some e) | None \<Rightarrow>
       (case find (\<lambda>r. row_id r = sid) (Store_sandboxes st) of None \<Rightarrow> (st, Some ErrNoRows) | Some r \<Rightarrow>
        (case fn (row_body r) of Inl e \<Rightarrow> (st, Some e) | Inr v \<Rightarrow>
         (case db UpdateBody of Some e \<Rightarrow> (st, Some e) | None \<Rightarrow>
          (case db Commit of Some e \<Rightarrow> (st, Some e) | None \<Rightarrow>
           (st\<lparr>Store_sandboxes :=
              map (set_body sid (v\<lparr>Sandbox_Updated := now\<rparr>)) (Store_sandboxes st)\<rparr>, None)))))))"

definition transitions :: "string \<Rightarrow> string list" where
  "transitions s =
     (if s = ''creating'' then [''created'', ''failed'', ''removing'']
      else if s = ''created'' then [''starting'', ''removing'']
      else if s = ''starting'' then [''running'', ''failed'', ''stopping'']
      else if s = ''running'' then [''stopping'', ''failed'']
      else if s = ''stopping'' then [''exited'', ''failed'']
      else if s = ''exited'' then [''starting'', ''removing'']
      else if s = ''failed'' then [''removing'']
      else [])"

definition Transition :: "string \<Rightarrow> string \<Rightarrow> Sandbox \<Rightarrow> Sandbox result" where
  "Transition to reason v =
     (if Sandbox_State v = to then Inr v
      else if to \<in> set (transitions (Sandbox_State v))
      then Inr (v\<lparr>Sandbox_State := to, Sandbox_Reason := reason\<rparr>)
      else Inl (ErrConflict (''cannot transition '' @ Sandbox_State v @ '' to '' @ to)))"

definition Intent :: "driver \<Rightarrow> int \<Rightarrow> Store \<Rightarrow> string \<Rightarrow> string \<Rightarrow> Store \<times> error option" where
  "Intent db now st sid action =
     (case db InsertEvent of Some e \<Rightarrow> (st, Some e) | None \<Rightarrow> (add_event now sid action st, None))"

definition Delete :: "driver \<Rightarrow> Store \<Rightarrow> string \<Rightarrow> Store \<times> error option" where
  "Delete db st sid =
     (case db DeleteSandbox of Some e \<Rightarrow> (st, Some e) | None \<Rightarrow>
      (st\<lparr>Store_sandboxes := filter (\<lambda>r. row_id r \<noteq> sid) (Store_sandboxes st)\<rparr>, None))"

definition Volumes :: "driver \<Rightarrow> Store \<Rightarrow> Volume list result" where
  "Volumes db st =
     (case db SelectVolumes of Some e \<Rightarrow> Inl e
      | None \<Rightarrow> Inr (map vol_body (sort_key vol_name (Store_volumes st))))"

definition PutVolume :: "driver \<Rightarrow> Store \<Rightarrow> Volume \<Rightarrow> Store \<times> error option" where
  "PutVolume db st v =
     (case db InsertVolume of Some e \<Rightarrow> (st, Some e) | None \<Rightarrow>
      if list_ex (\<lambda>r. vol_name r = Volume_Name v) (Store_volumes st)
      then (st, Some (ErrSys ''UNIQUE constraint failed: volumes.name''))
      else (st\<lparr>Store_volumes := Store_volumes st @ [\<lparr>vol_name = Volume_Name v, vol_body = v\<rparr>]\<rparr>, None))"

definition Volume_get :: "driver \<Rightarrow> Store \<Rightarrow> string \<Rightarrow> Volume result" where
  "Volume_get db st name =
     (case db SelectVolume of Some e \<Rightarrow> Inl e | None \<Rightarrow>
      (case find (\<lambda>r. vol_name r = name) (Store_volumes st) of
         None \<Rightarrow> Inl ErrNotFound | Some r \<Rightarrow> Inr (vol_body r)))"

definition DeleteVolume :: "driver \<Rightarrow> Store \<Rightarrow> string \<Rightarrow> Store \<times> error option" where
  "DeleteVolume db st name =
     (case db DeleteVolumeRow of Some e \<Rightarrow> (st, Some e) | None \<Rightarrow>
      (st\<lparr>Store_volumes := filter (\<lambda>r. vol_name r \<noteq> name) (Store_volumes st)\<rparr>, None))"

section \<open>The maps the tables represent\<close>

definition sandbox_of :: "Store \<Rightarrow> string \<Rightarrow> Sandbox option" where
  "sandbox_of st sid = map_option row_body (find (\<lambda>r. row_id r = sid) (Store_sandboxes st))"

definition volume_of :: "Store \<Rightarrow> string \<Rightarrow> Volume option" where
  "volume_of st name = map_option vol_body (find (\<lambda>r. vol_name r = name) (Store_volumes st))"

text \<open>The key constraints of the schema, and the agreement of the key columns with the body.\<close>

definition store_inv :: "Store \<Rightarrow> bool" where
  "store_inv st \<longleftrightarrow>
     distinct (map row_id (Store_sandboxes st)) \<and> distinct (map row_name (Store_sandboxes st)) \<and>
     (\<forall>r \<in> set (Store_sandboxes st). row_id r = Sandbox_ID (row_body r) \<and> row_name r = Sandbox_Name (row_body r)) \<and>
     distinct (map vol_name (Store_volumes st)) \<and>
     (\<forall>r \<in> set (Store_volumes st). vol_name r = Volume_Name (vol_body r))"

text \<open>A record with every field at its zero value.\<close>

definition v0 :: Sandbox where
  "v0 = \<lparr>Sandbox_ID = [], Sandbox_Name = [], Sandbox_Spec = DefaultSpec,
     Sandbox_Process = \<lparr>Process_Args = [], Process_Env = [], Process_User = [], Process_Cwd = [],
       Process_StopSignal = [], Process_TTY = False, Process_Interactive = False\<rparr>,
     Sandbox_ImageDigest = [], Sandbox_BaseDigest = [], Sandbox_State = [], Sandbox_Reason = [],
     Sandbox_Warnings = [], Sandbox_Generation = 0, Sandbox_Created = 0, Sandbox_Updated = 0,
     Sandbox_Exit = None, Sandbox_PID = 0, Sandbox_PIDStart = [], Sandbox_GuestMemory = 0,
     Sandbox_Slot = 0, Sandbox_VMResourcesReleased = False\<rparr>"

text \<open>What a reference may denote: an exact ID or name, or else the only ID it is a prefix of.\<close>

definition names :: "Sandbox \<Rightarrow> string \<Rightarrow> bool" where
  "names v ref \<longleftrightarrow> Sandbox_ID v = ref \<or> Sandbox_Name v = ref"

text \<open>The callbacks the daemon passes to \<open>Update\<close> keep the identity of the record.\<close>

definition keeps_identity :: "(Sandbox \<Rightarrow> Sandbox result) \<Rightarrow> Sandbox \<Rightarrow> bool" where
  "keeps_identity fn v \<longleftrightarrow>
     (case fn v of Inl _ \<Rightarrow> True
      | Inr v' \<Rightarrow> Sandbox_ID v' = Sandbox_ID v \<and> Sandbox_Name v' = Sandbox_Name v)"

section \<open>Lemmas\<close>

lemma find_append_none:
  "find P xs = None \<Longrightarrow> find P (xs @ ys) = find P ys"
  by (induction xs) (auto split: if_splits)

lemma find_append_some: "find P xs = Some x \<Longrightarrow> find P (xs @ ys) = Some x"
  by (induction xs) (auto split: if_splits)

lemma find_filter_key:
  "find (\<lambda>r. f r = k) (filter (\<lambda>r. f r \<noteq> k') xs) = (if k = k' then None else find (\<lambda>r. f r = k) xs)"
  by (induction xs) auto

lemma find_map_key:
  assumes "\<And>r. f (g r) = f r"
  shows "find (\<lambda>r. f r = k) (map g xs) = map_option g (find (\<lambda>r. f r = k) xs)"
  using assms by (induction xs) auto

lemma add_event_tables [store_simps, simp]:
  "Store_sandboxes (add_event now i a st) = Store_sandboxes st"
  "Store_volumes (add_event now i a st) = Store_volumes st"
  "sandbox_of (add_event now i a st) = sandbox_of st"
  "volume_of (add_event now i a st) = volume_of st"
  "store_inv (add_event now i a st) = store_inv st"
  by (auto simp: add_event_def sandbox_of_def volume_of_def store_inv_def)

lemma Intent_tables [store_simps, simp]:
  "sandbox_of (fst (Intent db now st i a)) = sandbox_of st"
  "volume_of (fst (Intent db now st i a)) = volume_of st"
  "store_inv (fst (Intent db now st i a)) = store_inv st"
  by (auto simp: Intent_def split: option.splits)

lemma store_invD:
  assumes "store_inv st"
  shows "distinct (map row_id (Store_sandboxes st))" "distinct (map row_name (Store_sandboxes st))"
    "\<And>r. r \<in> set (Store_sandboxes st) \<Longrightarrow> row_id r = Sandbox_ID (row_body r) \<and> row_name r = Sandbox_Name (row_body r)"
    "distinct (map vol_name (Store_volumes st))"
    "\<And>r. r \<in> set (Store_volumes st) \<Longrightarrow> vol_name r = Volume_Name (vol_body r)"
  using assms by (auto simp: store_inv_def)

lemma sandbox_of_row:
  assumes "store_inv st" "r \<in> set (Store_sandboxes st)"
  shows "sandbox_of st (row_id r) = Some (row_body r)"
  using find_Some_iff_unique [OF store_invD(1) [OF assms(1)] assms(2)] by (simp add: sandbox_of_def)

lemma sandbox_of_SomeD:
  assumes "store_inv st" "sandbox_of st i = Some v"
  shows "Sandbox_ID v = i" "\<lparr>row_id = i, row_name = Sandbox_Name v, row_body = v\<rparr> \<in> set (Store_sandboxes st)"
proof -
  from assms(2) obtain r where r: "find (\<lambda>r. row_id r = i) (Store_sandboxes st) = Some r" "row_body r = v"
    by (auto simp: sandbox_of_def)
  then have "r \<in> set (Store_sandboxes st)" "row_id r = i" using find_SomeD [OF r(1)] by auto
  moreover from this have "row_id r = Sandbox_ID v" "row_name r = Sandbox_Name v"
    using store_invD(3) [OF assms(1)] r(2) by auto
  moreover have "r = \<lparr>row_id = row_id r, row_name = row_name r, row_body = row_body r\<rparr>" by simp
  ultimately show "Sandbox_ID v = i" "\<lparr>row_id = i, row_name = Sandbox_Name v, row_body = v\<rparr> \<in> set (Store_sandboxes st)"
    using r(2) by metis+
qed

lemma ran_sandbox_of:
  assumes "store_inv st"
  shows "row_body ` set (Store_sandboxes st) = ran (sandbox_of st)"
proof
  show "row_body ` set (Store_sandboxes st) \<subseteq> ran (sandbox_of st)"
    using sandbox_of_row [OF assms] by (auto simp: ran_def)
  show "ran (sandbox_of st) \<subseteq> row_body ` set (Store_sandboxes st)"
    using sandbox_of_SomeD(2) [OF assms] by (force simp: ran_def)
qed

lemma names_unique:
  assumes "store_inv st" "sandbox_of st i = Some v" "sandbox_of st j = Some u"
    "Sandbox_Name v = Sandbox_Name u"
  shows "v = u"
proof -
  note d = sandbox_of_SomeD(2) [OF assms(1)]
  have "distinct (map row_name (Store_sandboxes st))" using assms(1) by (simp add: store_inv_def)
  from distinct_map_filter_unique [OF this d [OF assms(2)] d [OF assms(3)]] assms(4)
  show ?thesis by simp
qed

lemma List_sandboxes_set:
  assumes "store_inv st" "List_sandboxes db st = Inr all"
  shows "set all = ran (sandbox_of st)"
  using assms ran_sandbox_of by (auto simp: List_sandboxes_def split: option.splits)

lemma List_sandboxes_distinct:
  assumes "store_inv st" "List_sandboxes db st = Inr all"
  shows "distinct (map Sandbox_ID all)"
proof -
  let ?rows = "sort_key row_name (Store_sandboxes st)"
  have "mset ?rows = mset (Store_sandboxes st)" by simp
  then have "mset (map row_id ?rows) = mset (map row_id (Store_sandboxes st))" by (metis mset_map)
  then have "distinct (map row_id ?rows)"
    using store_invD(1) [OF assms(1)] mset_eq_imp_distinct_iff by blast
  moreover have "map row_id ?rows = map (Sandbox_ID \<circ> row_body) ?rows"
    using assms(1) by (intro map_cong) (auto simp: store_inv_def)
  ultimately show ?thesis
    using assms(2) by (auto simp: List_sandboxes_def split: option.splits)
qed

lemma Create_row_ok:
  assumes "store_inv st" "Create_row db now st v = (st', None)"
  shows "store_inv st'" "sandbox_of st (Sandbox_ID v) = None"
    "sandbox_of st' = (sandbox_of st)(Sandbox_ID v \<mapsto> v)" "volume_of st' = volume_of st"
    "\<And>i u. sandbox_of st i = Some u \<Longrightarrow> Sandbox_Name u \<noteq> Sandbox_Name v"
proof -
  let ?r = "\<lparr>row_id = Sandbox_ID v, row_name = Sandbox_Name v, row_body = v\<rparr>"
  let ?st = "st\<lparr>Store_sandboxes := Store_sandboxes st @ [?r]\<rparr>"
  from assms(2) have st': "st' = add_event now (Sandbox_ID v) ''create'' ?st"
    and new: "\<not> list_ex (\<lambda>r. row_id r = Sandbox_ID v \<or> row_name r = Sandbox_Name v) (Store_sandboxes st)"
    by (auto simp: Create_row_def split: option.splits if_splits)
  have fresh: "find (\<lambda>r. row_id r = Sandbox_ID v) (Store_sandboxes st) = None"
    using new by (auto simp: find_None_iff list_ex_iff)
  then show none: "sandbox_of st (Sandbox_ID v) = None" by (simp add: sandbox_of_def)
  show "store_inv st'"
    using assms(1) new unfolding st' by (auto simp: store_inv_def list_ex_iff)
  have "sandbox_of ?st i = ((sandbox_of st)(Sandbox_ID v \<mapsto> v)) i" for i
    using none by (cases "find (\<lambda>r. row_id r = i) (Store_sandboxes st)")
      (auto simp: sandbox_of_def find_append_none find_append_some)
  then show "sandbox_of st' = (sandbox_of st)(Sandbox_ID v \<mapsto> v)" unfolding st' by (simp add: fun_eq_iff)
  show "volume_of st' = volume_of st" unfolding st' by (simp add: volume_of_def fun_eq_iff)
  fix i u assume "sandbox_of st i = Some u"
  from sandbox_of_SomeD(2) [OF assms(1) this] show "Sandbox_Name u \<noteq> Sandbox_Name v"
    using new by (auto simp: list_ex_iff)
qed

lemma Create_row_err: "Create_row db now st v = (st', Some e) \<Longrightarrow> st' = st"
  by (auto simp: Create_row_def split: option.splits if_splits)

text \<open>The table after an \<open>Update\<close> that commits.\<close>

lemma set_body_keys [simp]:
  "row_id (set_body i v r) = row_id r" "row_name (set_body i v r) = row_name r"
  by (simp_all add: set_body_def)

lemma sandbox_of_set_body:
  assumes "sandbox_of st i \<noteq> None"
  shows "sandbox_of (st\<lparr>Store_sandboxes := map (set_body i v) (Store_sandboxes st)\<rparr>) = (sandbox_of st)(i \<mapsto> v)"
proof
  fix k
  have "row_body (set_body i v r) = (if k = i then v else row_body r)"
    if "find (\<lambda>r. row_id r = k) (Store_sandboxes st) = Some r" for r
    using find_SomeD [OF that] by (auto simp: set_body_def)
  then show "sandbox_of (st\<lparr>Store_sandboxes := map (set_body i v) (Store_sandboxes st)\<rparr>) k = ((sandbox_of st)(i \<mapsto> v)) k"
    using assms find_map_key [of row_id "set_body i v" k "Store_sandboxes st"]
    by (cases "find (\<lambda>r. row_id r = k) (Store_sandboxes st)") (auto simp: sandbox_of_def)
qed

lemma store_inv_set_body:
  assumes "store_inv st" "sandbox_of st i = Some u" "Sandbox_ID v = Sandbox_ID u" "Sandbox_Name v = Sandbox_Name u"
  shows "store_inv (st\<lparr>Store_sandboxes := map (set_body i v) (Store_sandboxes st)\<rparr>)"
proof -
  have "row_id r = Sandbox_ID (row_body (set_body i v r)) \<and> row_name r = Sandbox_Name (row_body (set_body i v r))"
    if r: "r \<in> set (Store_sandboxes st)" for r
  proof (cases "row_id r = i")
    case True
    then have "row_body r = u" using sandbox_of_row [OF assms(1) r] assms(2) by simp
    then show ?thesis using True store_invD(3) [OF assms(1) r] assms(3,4) by (simp add: set_body_def)
  next
    case False
    then show ?thesis using store_invD(3) [OF assms(1) r] by (simp add: set_body_def)
  qed
  then show ?thesis using assms(1) by (simp add: store_inv_def comp_def)
qed

lemma Update_ok:
  assumes "store_inv st" "Update db now st i fn = (st', None)"
  obtains v v' where "sandbox_of st i = Some v" "fn v = Inr v'"
    "sandbox_of st' = (sandbox_of st)(i \<mapsto> v'\<lparr>Sandbox_Updated := now\<rparr>)"
    "volume_of st' = volume_of st" "keeps_identity fn v \<Longrightarrow> store_inv st'"
proof -
  from assms(2) obtain r v' where r: "find (\<lambda>r. row_id r = i) (Store_sandboxes st) = Some r"
    and fn: "fn (row_body r) = Inr v'"
    and st': "st' = st\<lparr>Store_sandboxes := map (set_body i (v'\<lparr>Sandbox_Updated := now\<rparr>)) (Store_sandboxes st)\<rparr>"
    by (auto simp: Update_def split: option.splits sum.splits)
  have of: "sandbox_of st i = Some (row_body r)" using r by (simp add: sandbox_of_def)
  show thesis
  proof (rule that [OF of fn])
    show "sandbox_of st' = (sandbox_of st)(i \<mapsto> v'\<lparr>Sandbox_Updated := now\<rparr>)"
      unfolding st' by (rule sandbox_of_set_body) (simp add: of)
    show "volume_of st' = volume_of st" by (simp add: st' volume_of_def fun_eq_iff)
    assume "keeps_identity fn (row_body r)"
    then show "store_inv st'" unfolding st'
      by (intro store_inv_set_body [OF assms(1) of]) (simp_all add: keeps_identity_def fn)
  qed
qed

lemma Update_err: "Update db now st i fn = (st', Some e) \<Longrightarrow> st' = st"
  by (auto simp: Update_def split: option.splits sum.splits)

lemma Delete_ok:
  assumes "store_inv st" "Delete db st i = (st', None)"
  shows "store_inv st'" "sandbox_of st' = (sandbox_of st)(i := None)" "volume_of st' = volume_of st"
proof -
  from assms(2) have st': "st' = st\<lparr>Store_sandboxes := filter (\<lambda>r. row_id r \<noteq> i) (Store_sandboxes st)\<rparr>"
    by (auto simp: Delete_def split: option.splits)
  show "store_inv st'" using assms(1) unfolding st' store_inv_def by (auto simp: distinct_map_filter)
  show "sandbox_of st' = (sandbox_of st)(i := None)"
    unfolding st' by (rule ext) (simp add: sandbox_of_def find_filter_key)
  show "volume_of st' = volume_of st" unfolding st' by (simp add: volume_of_def fun_eq_iff)
qed

lemma Create_row_spec:
  assumes "store_inv st"
  shows "case Create_row db now st v of
      (st', None) \<Rightarrow> sandbox_of st (Sandbox_ID v) = None \<and> sandbox_of st' = (sandbox_of st)(Sandbox_ID v \<mapsto> v) \<and>
        store_inv st' \<and> volume_of st' = volume_of st
    | (st', Some e) \<Rightarrow> st' = st"
proof (cases "snd (Create_row db now st v)")
  case None
  then have u: "Create_row db now st v = (fst (Create_row db now st v), None)" by (simp add: prod_eq_iff)
  show ?thesis using Create_row_ok(1-4) [OF assms u] by (subst u) simp
next
  case (Some e)
  then have u: "Create_row db now st v = (fst (Create_row db now st v), Some e)" by (simp add: prod_eq_iff)
  show ?thesis using Create_row_err [OF u] by (subst u) simp
qed

lemma Update_spec:
  assumes "store_inv st"
  shows "case Update db now st i fn of
      (st', None) \<Rightarrow> (\<exists>u u'. sandbox_of st i = Some u \<and> fn u = Inr u' \<and>
        sandbox_of st' = (sandbox_of st)(i \<mapsto> u'\<lparr>Sandbox_Updated := now\<rparr>) \<and>
        (keeps_identity fn u \<longrightarrow> store_inv st')) \<and> volume_of st' = volume_of st
    | (st', Some e) \<Rightarrow> st' = st"
proof (cases "snd (Update db now st i fn)")
  case None
  then have u: "Update db now st i fn = (fst (Update db now st i fn), None)" by (simp add: prod_eq_iff)
  show ?thesis by (rule Update_ok [OF assms u], subst u) auto
next
  case (Some e)
  then have u: "Update db now st i fn = (fst (Update db now st i fn), Some e)" by (simp add: prod_eq_iff)
  show ?thesis using Update_err [OF u] by (subst u) simp
qed

lemma Delete_err: "Delete db st i = (st', Some e) \<Longrightarrow> st' = st"
  by (auto simp: Delete_def split: option.splits)

lemma Delete_spec:
  assumes "store_inv st"
  shows "case Delete db st i of
      (st', None) \<Rightarrow> sandbox_of st' = (sandbox_of st)(i := None) \<and> store_inv st' \<and> volume_of st' = volume_of st
    | (st', Some e) \<Rightarrow> st' = st"
proof (cases "snd (Delete db st i)")
  case None
  then have u: "Delete db st i = (fst (Delete db st i), None)" by (simp add: prod_eq_iff)
  show ?thesis using Delete_ok [OF assms u] by (subst u) simp
next
  case (Some e)
  then have u: "Delete db st i = (fst (Delete db st i), Some e)" by (simp add: prod_eq_iff)
  show ?thesis using Delete_err [OF u] by (subst u) simp
qed

lemma PutVolume_ok:
  assumes "store_inv st" "PutVolume db st v = (st', None)"
  shows "store_inv st'" "volume_of st (Volume_Name v) = None"
    "volume_of st' = (volume_of st)(Volume_Name v \<mapsto> v)" "sandbox_of st' = sandbox_of st"
proof -
  from assms(2) have st': "st' = st\<lparr>Store_volumes := Store_volumes st @ [\<lparr>vol_name = Volume_Name v, vol_body = v\<rparr>]\<rparr>"
    and new: "\<not> list_ex (\<lambda>r. vol_name r = Volume_Name v) (Store_volumes st)"
    by (auto simp: PutVolume_def split: option.splits if_splits)
  show none: "volume_of st (Volume_Name v) = None"
    using new by (auto simp: volume_of_def find_None_iff list_ex_iff)
  show "store_inv st'" using assms(1) new unfolding st' by (auto simp: store_inv_def list_ex_iff)
  have "volume_of st' i = ((volume_of st)(Volume_Name v \<mapsto> v)) i" for i
    using none unfolding st' by (cases "find (\<lambda>r. vol_name r = i) (Store_volumes st)")
      (auto simp: volume_of_def find_append_none find_append_some)
  then show "volume_of st' = (volume_of st)(Volume_Name v \<mapsto> v)" by (rule ext)
  show "sandbox_of st' = sandbox_of st" unfolding st' by (simp add: sandbox_of_def fun_eq_iff)
qed

lemma PutVolume_err: "PutVolume db st v = (st', Some e) \<Longrightarrow> st' = st"
  by (auto simp: PutVolume_def split: option.splits if_splits)

lemma DeleteVolume_ok:
  assumes "store_inv st" "DeleteVolume db st n = (st', None)"
  shows "store_inv st'" "volume_of st' = (volume_of st)(n := None)" "sandbox_of st' = sandbox_of st"
proof -
  from assms(2) have st': "st' = st\<lparr>Store_volumes := filter (\<lambda>r. vol_name r \<noteq> n) (Store_volumes st)\<rparr>"
    by (auto simp: DeleteVolume_def split: option.splits)
  show "store_inv st'" using assms(1) unfolding st' store_inv_def by (auto simp: distinct_map_filter)
  show "volume_of st' = (volume_of st)(n := None)"
    unfolding st' by (rule ext) (simp add: volume_of_def find_filter_key)
  show "sandbox_of st' = sandbox_of st" unfolding st' by (simp add: sandbox_of_def fun_eq_iff)
qed

lemma DeleteVolume_err: "DeleteVolume db st n = (st', Some e) \<Longrightarrow> st' = st"
  by (auto simp: DeleteVolume_def split: option.splits)

lemma Volume_get_of: "Volume_get db st n = Inr v \<Longrightarrow> volume_of st n = Some v"
  by (auto simp: Volume_get_def volume_of_def split: option.splits)

section \<open>The interface of a table\<close>

text \<open>
  A table with a primary key, as its clients see it: an insertion that succeeds was fresh and
  adds one entry, a deletion that succeeds removes one, and an error changes nothing.
\<close>

locale row_store =
  fixes key :: "'r \<Rightarrow> string"
    and look :: "'s \<Rightarrow> string \<Rightarrow> 'r option"
    and inv :: "'s \<Rightarrow> bool"
    and ins :: "driver \<Rightarrow> 's \<Rightarrow> 'r \<Rightarrow> 's \<times> error option"
    and del :: "driver \<Rightarrow> 's \<Rightarrow> string \<Rightarrow> 's \<times> error option"
  assumes ins_ok: "inv s \<Longrightarrow> ins db s r = (s', None) \<Longrightarrow>
      inv s' \<and> look s (key r) = None \<and> look s' = (look s)(key r \<mapsto> r)"
    and ins_err: "ins db s r = (s', Some e) \<Longrightarrow> s' = s"
    and del_ok: "inv s \<Longrightarrow> del db s k = (s', None) \<Longrightarrow> inv s' \<and> look s' = (look s)(k := None)"
    and del_err: "del db s k = (s', Some e) \<Longrightarrow> s' = s"
begin

lemma ins_effect:
  assumes "inv s"
  shows "fst (ins db s r) = s \<or>
    inv (fst (ins db s r)) \<and> look s (key r) = None \<and> look (fst (ins db s r)) = (look s)(key r \<mapsto> r)"
proof (cases "snd (ins db s r)")
  case None
  then have "ins db s r = (fst (ins db s r), None)" by (simp add: prod_eq_iff)
  from ins_ok [OF assms this] show ?thesis by blast
next
  case (Some e)
  then have "ins db s r = (fst (ins db s r), Some e)" by (simp add: prod_eq_iff)
  from ins_err [OF this] show ?thesis by blast
qed

lemma del_effect:
  assumes "inv s"
  shows "fst (del db s k) = s \<or> inv (fst (del db s k)) \<and> look (fst (del db s k)) = (look s)(k := None)"
proof (cases "snd (del db s k)")
  case None
  then have "del db s k = (fst (del db s k), None)" by (simp add: prod_eq_iff)
  from del_ok [OF assms this] show ?thesis by blast
next
  case (Some e)
  then have "del db s k = (fst (del db s k), Some e)" by (simp add: prod_eq_iff)
  from del_err [OF this] show ?thesis by blast
qed

lemma ins_inv: "inv s \<Longrightarrow> inv (fst (ins db s r))"
  using ins_effect [of s db r] by auto

lemma del_inv: "inv s \<Longrightarrow> inv (fst (del db s k))"
  using del_effect [of s db k] by auto

lemma ins_mono: "inv s \<Longrightarrow> look s k = Some r \<Longrightarrow> look (fst (ins db s q)) k = Some r"
  using ins_effect [of s db q] by auto

lemma del_frame: "inv s \<Longrightarrow> k \<noteq> k' \<Longrightarrow> look (fst (del db s k)) k' = look s k'"
  using del_effect [of s db k] by auto

lemma ins_del:
  assumes "inv s" "ins db s r = (s1, None)" "del db' s1 (key r) = (s2, None)"
  shows "look s2 = look s"
  using ins_ok [OF assms(1,2)] del_ok [of s1 db' "key r" s2] assms(3)
  by (auto simp: fun_eq_iff)

end

interpretation sandboxes: row_store Sandbox_ID sandbox_of store_inv
  "\<lambda>db st v. Create_row db now st v" Delete
  by unfold_locales (blast dest: Create_row_ok Create_row_err Delete_ok Delete_err)+

interpretation volumes: row_store Volume_Name volume_of store_inv PutVolume DeleteVolume
  by unfold_locales (blast dest: PutVolume_ok PutVolume_err DeleteVolume_ok DeleteVolume_err)+

section \<open>Resolving references\<close>

lemma Get_member:
  assumes "store_inv st" "Get db st ref = Inr v"
  shows "sandbox_of st (Sandbox_ID v) = Some v"
proof -
  from assms(2) obtain all where l: "List_sandboxes db st = Inr all"
    by (auto simp: Get_def split: sum.splits)
  have "v \<in> set all"
  proof (cases "find (\<lambda>v. Sandbox_ID v = ref \<or> Sandbox_Name v = ref) all")
    case None
    define f where "f = filter (\<lambda>v. ref \<noteq> [] \<and> HasPrefix (Sandbox_ID v) ref) all"
    from assms(2) l None have "length f = 1" "v = f ! 0"
      by (simp_all add: Get_def Let_def f_def split: if_splits)
    then have "v \<in> set f" using nth_mem [of 0 f] by simp
    then show ?thesis by (simp add: f_def)
  next
    case (Some u)
    with assms(2) l have "v = u" by (simp add: Get_def)
    with find_SomeD [OF Some] show ?thesis by simp
  qed
  with List_sandboxes_set [OF assms(1) l] obtain i where "sandbox_of st i = Some v" by (auto simp: ran_def)
  with sandbox_of_SomeD(1) [OF assms(1) this] show ?thesis by simp
qed

lemma Get_cases:
  assumes "store_inv st" "db SelectBodies = None"
  obtains (exact) v where "v \<in> ran (sandbox_of st)" "names v ref" "Get db st ref = Inr v"
  | (short) v where "v \<in> ran (sandbox_of st)" "\<And>u. u \<in> ran (sandbox_of st) \<Longrightarrow> \<not> names u ref"
      "ref \<noteq> []" "HasPrefix (Sandbox_ID v) ref" "Get db st ref = Inr v"
      "\<And>u. u \<in> ran (sandbox_of st) \<Longrightarrow> HasPrefix (Sandbox_ID u) ref \<Longrightarrow> u = v"
  | (missing) "\<And>u. u \<in> ran (sandbox_of st) \<Longrightarrow> \<not> names u ref \<and> (ref = [] \<or> \<not> HasPrefix (Sandbox_ID u) ref)"
      "Get db st ref = Inl ErrNotFound"
  | (ambiguous) u v where "u \<in> ran (sandbox_of st)" "v \<in> ran (sandbox_of st)" "u \<noteq> v" "ref \<noteq> []"
      "HasPrefix (Sandbox_ID u) ref" "HasPrefix (Sandbox_ID v) ref" "\<And>u. u \<in> ran (sandbox_of st) \<Longrightarrow> \<not> names u ref"
      "Get db st ref = Inl (ErrConflict ''ambiguous ID'')"
proof -
  let ?P = "\<lambda>v. ref \<noteq> [] \<and> HasPrefix (Sandbox_ID v) ref"
  obtain all where l: "List_sandboxes db st = Inr all" using assms(2) by (simp add: List_sandboxes_def)
  have set: "set all = ran (sandbox_of st)" by (rule List_sandboxes_set [OF assms(1) l])
  have dist: "distinct all" using List_sandboxes_distinct [OF assms(1) l] distinct_map by blast
  show thesis
  proof (cases "find (\<lambda>v. Sandbox_ID v = ref \<or> Sandbox_Name v = ref) all")
    case (Some v)
    then show thesis using find_SomeD [OF Some] set l by (intro exact [of v]) (auto simp: names_def Get_def)
  next
    case None
    then have no: "\<And>u. u \<in> ran (sandbox_of st) \<Longrightarrow> \<not> names u ref"
      using set by (auto simp: names_def find_None_iff)
    define f where "f = filter ?P all"
    have G: "Get db st ref = (if length f = 1 then Inr (f ! 0)
        else if length f > 1 then Inl (ErrConflict ''ambiguous ID'') else Inl ErrNotFound)"
      using l None by (simp add: Get_def Let_def f_def)
    have f: "u \<in> set f \<longleftrightarrow> u \<in> ran (sandbox_of st) \<and> ref \<noteq> [] \<and> HasPrefix (Sandbox_ID u) ref" for u
      using set by (simp add: f_def)
    consider "length f = 1" | "length f = 0" | "length f > 1" by linarith
    then show thesis
    proof cases
      case 1
      then obtain v where v: "f = [v]" by (auto simp: length_Suc_conv)
      have vv: "v \<in> ran (sandbox_of st)" "ref \<noteq> []" "HasPrefix (Sandbox_ID v) ref" using f [of v] v by auto
      have "u = v" if "u \<in> ran (sandbox_of st)" "HasPrefix (Sandbox_ID u) ref" for u
        using f [of u] v vv(2) that by simp
      moreover have "Get db st ref = Inr v" using G v by simp
      ultimately show thesis using vv no short by blast
    next
      case 2
      then have "Get db st ref = Inl ErrNotFound" using G by simp
      moreover have "\<not> names u ref \<and> (ref = [] \<or> \<not> HasPrefix (Sandbox_ID u) ref)"
        if "u \<in> ran (sandbox_of st)" for u using f [of u] no [OF that] that 2 by auto
      ultimately show thesis using missing by blast
    next
      case 3
      then obtain u v vs where uv: "f = u # v # vs" by (cases f; cases "tl f") auto
      have "distinct f" using dist by (simp add: f_def)
      then have "u \<noteq> v" "u \<in> set f" "v \<in> set f" using uv by auto
      moreover have "Get db st ref = Inl (ErrConflict ''ambiguous ID'')" using G 3 by simp
      ultimately show thesis using f no ambiguous by blast
    qed
  qed
qed

lemma Get_unique:
  assumes "store_inv st" "db SelectBodies = None" "v \<in> ran (sandbox_of st)" "names v ref"
    and "\<And>u. u \<in> ran (sandbox_of st) \<Longrightarrow> names u ref \<Longrightarrow> u = v"
  shows "Get db st ref = Inr v"
  using assms(1,2)
proof (cases rule: Get_cases [of st db ref])
  case (exact u)
  then show ?thesis using assms(5) by simp
qed (use assms(3,4) in blast)+

section \<open>Properties\<close>

text \<open>C5. The metadata store implements a finite map from IDs to records: an insertion that
  commits was fresh in ID and name and adds exactly its record, an update that commits
  applies the callback to the stored record and stamps it, a deletion that commits removes
  one entry, and any of them that reports an error, at whichever statement, leaves the
  tables unchanged.  No operation on sandboxes touches a volume.\<close>

theorem store_refines_map:
  assumes "store_inv st"
  shows "(case Create_row db now st v of
      (st', None) \<Rightarrow> sandbox_of st (Sandbox_ID v) = None \<and> sandbox_of st' = (sandbox_of st)(Sandbox_ID v \<mapsto> v) \<and>
        store_inv st' \<and> volume_of st' = volume_of st
    | (st', Some e) \<Rightarrow> st' = st) \<and>
    (case Update db now st i fn of
      (st', None) \<Rightarrow> (\<exists>u u'. sandbox_of st i = Some u \<and> fn u = Inr u' \<and>
        sandbox_of st' = (sandbox_of st)(i \<mapsto> u'\<lparr>Sandbox_Updated := now\<rparr>) \<and>
        (keeps_identity fn u \<longrightarrow> store_inv st')) \<and> volume_of st' = volume_of st
    | (st', Some e) \<Rightarrow> st' = st) \<and>
    (case Delete db st i of
      (st', None) \<Rightarrow> sandbox_of st' = (sandbox_of st)(i := None) \<and> store_inv st' \<and> volume_of st' = volume_of st
    | (st', Some e) \<Rightarrow> st' = st)"
  using Create_row_spec [OF assms, where db = db and now = now and v = v]
    Update_spec [OF assms, where db = db and now = now and i = i and fn = fn]
    Delete_spec [OF assms, where db = db and i = i]
  by (intro conjI)

theorem store_refines_map_witness:
  "store_inv (fst (Create_row (\<lambda>_. None) 7 empty_store v0)) \<and>
   sandbox_of (fst (Delete (\<lambda>_. None) (fst (Create_row (\<lambda>_. None) 7 empty_store v0)) (Sandbox_ID v0))) = Map.empty"
proof -
  have e: "store_inv empty_store" "sandbox_of empty_store = Map.empty"
    by (auto simp: store_inv_def empty_store_def sandbox_of_def)
  have c: "Create_row (\<lambda>_. None) 7 empty_store v0 = (fst (Create_row (\<lambda>_. None) 7 empty_store v0), None)"
    by (simp add: Create_row_def empty_store_def)
  have "store_inv (fst (Create_row (\<lambda>_. None) 7 empty_store v0)) \<and>
    sandbox_of (fst (Create_row (\<lambda>_. None) 7 empty_store v0)) = [Sandbox_ID v0 \<mapsto> v0]"
    using conjunct1 [OF store_refines_map [OF e(1), where db = "\<lambda>_. None" and now = 7 and v = v0]] e(2)
    by (subst (asm) c) simp
  then have s: "store_inv (fst (Create_row (\<lambda>_. None) 7 empty_store v0))"
    "sandbox_of (fst (Create_row (\<lambda>_. None) 7 empty_store v0)) = [Sandbox_ID v0 \<mapsto> v0]" by auto
  from store_refines_map [OF s(1), where db = "\<lambda>_. None" and i = "Sandbox_ID v0"] s
  show ?thesis by (simp add: Delete_def)
qed

text \<open>C6. \<open>Get\<close> resolves a reference: a record it returns is stored, and is named exactly by the
  reference or, when no record is, is the only one whose ID starts with the non-empty
  reference; it reports not-found exactly when nothing matches; a reference that is the
  exact ID or name of one record only always denotes that record.\<close>

theorem Get_resolves:
  assumes "store_inv st" "db SelectBodies = None"
  shows "(\<forall>v. Get db st ref = Inr v \<longrightarrow> sandbox_of st (Sandbox_ID v) = Some v \<and>
      (names v ref \<or> ref \<noteq> [] \<and> HasPrefix (Sandbox_ID v) ref \<and>
        (\<forall>u \<in> ran (sandbox_of st). \<not> names u ref \<and> (HasPrefix (Sandbox_ID u) ref \<longrightarrow> u = v)))) \<and>
    (Get db st ref = Inl ErrNotFound \<longleftrightarrow>
      (\<forall>u \<in> ran (sandbox_of st). \<not> names u ref \<and> (ref = [] \<or> \<not> HasPrefix (Sandbox_ID u) ref))) \<and>
    (\<forall>v. {u \<in> ran (sandbox_of st). names u ref} = {v} \<longrightarrow> Get db st ref = Inr v)"
proof (intro conjI allI impI)
  fix v assume g: "Get db st ref = Inr v"
  show "sandbox_of st (Sandbox_ID v) = Some v" by (rule Get_member [OF assms(1) g])
  show "names v ref \<or> ref \<noteq> [] \<and> HasPrefix (Sandbox_ID v) ref \<and>
        (\<forall>u \<in> ran (sandbox_of st). \<not> names u ref \<and> (HasPrefix (Sandbox_ID u) ref \<longrightarrow> u = v))"
    using assms
  proof (cases rule: Get_cases [of st db ref])
    case (exact u)
    from g exact(3) have "v = u" by simp
    with exact(2) show ?thesis by blast
  next
    case (short u)
    from g short(5) have "v = u" by simp
    with short show ?thesis by blast
  next
    case missing
    with g show ?thesis by (simp only: sum.distinct)
  next
    case (ambiguous a b)
    with g show ?thesis by (simp only: sum.distinct)
  qed
next
  show "Get db st ref = Inl ErrNotFound \<longleftrightarrow>
      (\<forall>u \<in> ran (sandbox_of st). \<not> names u ref \<and> (ref = [] \<or> \<not> HasPrefix (Sandbox_ID u) ref))"
    using assms
  proof (cases rule: Get_cases [of st db ref])
    case (exact u)
    from exact(3) have "Get db st ref \<noteq> Inl ErrNotFound" by simp
    with exact(1,2) show ?thesis by blast
  next
    case (short u)
    from short(5) have "Get db st ref \<noteq> Inl ErrNotFound" by simp
    with short(1,3,4) show ?thesis by blast
  next
    case missing
    then show ?thesis by simp
  next
    case (ambiguous u v)
    from ambiguous(8) have "Get db st ref \<noteq> Inl ErrNotFound" by simp
    with ambiguous(1,4,5) show ?thesis by blast
  qed
next
  fix v assume only: "{u \<in> ran (sandbox_of st). names u ref} = {v}"
  show "Get db st ref = Inr v"
  proof (rule Get_unique [where db = db, OF assms])
    show "v \<in> ran (sandbox_of st)" "names v ref" using only by blast+
    show "u = v" if "u \<in> ran (sandbox_of st)" "names u ref" for u using only that by blast
  qed
qed

theorem Get_resolves_witness:
  "Get (\<lambda>_. None) (fst (Create_row (\<lambda>_. None) 7 empty_store (v0\<lparr>Sandbox_ID := ''3fa0'', Sandbox_Name := ''web''\<rparr>))) ''3f'' =
     Inr (v0\<lparr>Sandbox_ID := ''3fa0'', Sandbox_Name := ''web''\<rparr>) \<and>
   Get (\<lambda>_. None) (fst (Create_row (\<lambda>_. None) 7 empty_store (v0\<lparr>Sandbox_ID := ''3fa0'', Sandbox_Name := ''web''\<rparr>))) ''4'' =
     Inl ErrNotFound"
proof -
  let ?v = "v0\<lparr>Sandbox_ID := ''3fa0'', Sandbox_Name := ''web''\<rparr>"
  let ?st = "fst (Create_row (\<lambda>_. None) 7 empty_store ?v)"
  have inv: "store_inv ?st"
    by (simp add: Create_row_def empty_store_def store_inv_def)
  have of: "ran (sandbox_of ?st) = {?v}"
    by (subst ran_sandbox_of [OF inv, symmetric]) (simp add: Create_row_def empty_store_def)
  have "Get (\<lambda>_. None) ?st ''4'' = Inl ErrNotFound"
    using Get_resolves [OF inv, where db = "\<lambda>_. None" and ref = "''4''"] unfolding of
    by (simp add: names_def HasPrefix_def)
  moreover have "Get (\<lambda>_. None) ?st ''3f'' = Inr ?v"
    by (simp add: Get_def List_sandboxes_def Create_row_def empty_store_def HasPrefix_def)
  ultimately show ?thesis by blast
qed


end
