(* ===== verification/Journal.thy ===== *)
theory Journal
  imports Api
begin

text \<open>
  Application and console logs: src/internal/journal/journal.go and sink.go.  A \<open>Journal\<close> keeps
  recent frames in memory and appends each frame as a line of a file that is rotated to
  \<open>path.1\<close>.  A log file is the list of its frames; the length of the encoded line is the
  parameter \<open>enc\<close>.  System calls fail as the fault function of each round of the loop says.
  \<open>Sink\<close> copies a byte stream, given as the chunks that successive reads return.

  The theory shows that the memory is bounded, that sequence numbers are consecutive and
  survive a restart, that writing splits the bytes without loss, that draining the journal
  with a cursor terminates and delivers every retained frame exactly once, after a gap
  notice exactly when older frames are gone, and that the two console files stay bounded.
\<close>

section \<open>Journal\<close>

definition Limit :: nat where "Limit = 8388608"

record Journal =
  Journal_Path :: string
  Journal_frames :: "Frame list"
  Journal_bytes :: int
  Journal_seq :: nat

datatype log_site = LStat | LRename | LOpen | LEncode

type_synonym log_files = "string \<Rightarrow> Frame list option"

record log_env =
  log_enc :: "Frame \<Rightarrow> nat"
  log_fault :: "nat \<Rightarrow> log_site \<Rightarrow> error option"
  log_now :: "nat \<Rightarrow> int"

definition frame_cost :: "Frame \<Rightarrow> int" where
  "frame_cost f = int (length (Frame_Data f)) + 128"

fun evict :: "int \<Rightarrow> Frame list \<Rightarrow> int \<times> Frame list" where
  "evict b [] = (b, [])"
| "evict b (f # fs) =
     (if b > int Limit \<and> length (f # fs) > 1 then evict (b - frame_cost f) fs else (b, f # fs))"

definition append_frame :: "Frame \<Rightarrow> Journal \<Rightarrow> Journal" where
  "append_frame f j =
     (let (b, fs) = evict (Journal_bytes j + frame_cost f) (Journal_frames j @ [f])
      in j\<lparr>Journal_frames := fs, Journal_bytes := b\<rparr>)"

definition load_frame :: "Journal \<Rightarrow> Frame \<Rightarrow> Journal" where
  "load_frame j f =
     (let j' = append_frame f j
      in if Frame_Sequence f > Journal_seq j' then j'\<lparr>Journal_seq := Frame_Sequence f\<rparr> else j')"

text \<open>The scanner of \<open>Open\<close> gives up at a line longer than 1 MiB.\<close>

definition Open_journal :: "(Frame \<Rightarrow> nat) \<Rightarrow> (string \<Rightarrow> error option) \<Rightarrow> log_files \<Rightarrow> string \<Rightarrow> Journal" where
  "Open_journal enc flt files path =
     foldl (\<lambda>j p. case flt p of Some e \<Rightarrow> j
                   | None \<Rightarrow> (case files p of None \<Rightarrow> j
                              | Some ls \<Rightarrow> foldl load_frame j (takeWhile (\<lambda>f. enc f \<le> 1048576) ls)))
       \<lparr>Journal_Path = path, Journal_frames = [], Journal_bytes = 0, Journal_seq = 0\<rparr>
       [path @ ''.1'', path]"

definition new_frame :: "string \<Rightarrow> string \<Rightarrow> nat \<Rightarrow> int \<Rightarrow> Frame" where
  "new_frame kind b seq now = \<lparr>Frame_Type = kind, Frame_Data = b, Frame_Message = [], Frame_Code = None,
     Frame_Width = 0, Frame_Height = 0, Frame_Sequence = seq, Frame_Time = now\<rparr>"

definition file_size :: "(Frame \<Rightarrow> nat) \<Rightarrow> Frame list \<Rightarrow> nat" where
  "file_size enc ls = sum_list (map enc ls)"

definition rotate :: "log_env \<Rightarrow> nat \<Rightarrow> string \<Rightarrow> log_files \<Rightarrow> log_files \<times> error option" where
  "rotate env k path files =
     (case (log_fault env k LStat, files path) of
        (None, Some ls) \<Rightarrow>
          if file_size (log_enc env) ls > Limit then
            (case log_fault env k LRename of
               Some e \<Rightarrow> (files(path @ ''.1'' := None), Some e)
             | None \<Rightarrow> (files(path @ ''.1'' := Some ls, path := None), None))
          else (files, None)
      | _ \<Rightarrow> (files, None))"

definition persist :: "log_env \<Rightarrow> nat \<Rightarrow> string \<Rightarrow> Frame \<Rightarrow> log_files \<Rightarrow> log_files \<times> error option" where
  "persist env k path f files =
     (case rotate env k path files of
        (files, Some e) \<Rightarrow> (files, Some e)
      | (files, None) \<Rightarrow>
          (case log_fault env k LOpen of Some e \<Rightarrow> (files, Some e) | None \<Rightarrow>
           (let old = (case files path of None \<Rightarrow> [] | Some ls \<Rightarrow> ls) in
            case log_fault env k LEncode of
              Some e \<Rightarrow> (files(path \<mapsto> old), Some e)
            | None \<Rightarrow> (files(path \<mapsto> old @ [f]), None))))"

function Write_loop :: "log_env \<Rightarrow> nat \<Rightarrow> string \<Rightarrow> string \<Rightarrow> Journal \<Rightarrow> log_files \<Rightarrow> (Journal \<times> log_files) \<times> error option" where
  "Write_loop env k kind b j files =
     (if b = [] then ((j, files), None)
      else
        (let n = (if length b > 32768 then 32768 else length b);
             s = wrapu64 (Journal_seq j + 1);
             f = new_frame kind (take n b) s (log_now env k);
             j' = append_frame f (j\<lparr>Journal_seq := s\<rparr>)
         in if Journal_Path j = [] then Write_loop env (Suc k) kind (drop n b) j' files
            else case persist env k (Journal_Path j) f files of
              (files', Some e) \<Rightarrow> ((j', files'), Some e)
            | (files', None) \<Rightarrow> Write_loop env (Suc k) kind (drop n b) j' files'))"
  by pat_completeness auto
termination by (relation "measure (\<lambda>(_, _, _, b, _, _). length b)") auto

definition Write :: "log_env \<Rightarrow> string \<Rightarrow> string \<Rightarrow> Journal \<Rightarrow> log_files \<Rightarrow> (Journal \<times> log_files) \<times> error option" where
  "Write env kind b j files = Write_loop env 0 kind b j files"

fun take_batch :: "nat \<Rightarrow> Frame list \<Rightarrow> Frame list" where
  "take_batch sz [] = []"
| "take_batch sz (f # fs) =
     (if sz + length (Frame_Data f) \<ge> 262144 then [f]
      else f # take_batch (sz + length (Frame_Data f)) fs)"

definition gap_frame :: "nat \<Rightarrow> Frame" where
  "gap_frame s = \<lparr>Frame_Type = ''gap'', Frame_Data = [], Frame_Message = ''older application logs were rotated'',
     Frame_Code = None, Frame_Width = 0, Frame_Height = 0, Frame_Sequence = s, Frame_Time = 0\<rparr>"

definition Read :: "nat \<Rightarrow> Journal \<Rightarrow> Frame list" where
  "Read after j =
     (case Journal_frames j of [] \<Rightarrow> []
      | f # fs \<Rightarrow> (if wrapu64 (after + 1) < Frame_Sequence f then [gap_frame (Frame_Sequence f - 1)] else []))
     @ take_batch 0 (filter (\<lambda>f. Frame_Sequence f > after) (Journal_frames j))"

definition Writer_Write :: "log_env \<Rightarrow> string \<Rightarrow> string \<Rightarrow> Journal \<Rightarrow> log_files \<Rightarrow> (Journal \<times> log_files) \<times> nat \<times> error option" where
  "Writer_Write env kind b j files = (case Write env kind b j files of (s, e) \<Rightarrow> (s, length b, e))"

text \<open>The loop of a reader (retainedAttach in src/internal/daemon/results.go): read, deliver,
  and move the cursor to the last frame, until a read returns nothing.\<close>

partial_function (option) drain :: "nat \<Rightarrow> Journal \<Rightarrow> Frame list option" where
  "drain after j =
     (let fs = Read after j
      in if fs = [] then Some []
         else Option.bind (drain (Frame_Sequence (last fs)) j) (\<lambda>rest. Some (fs @ rest)))"

section \<open>Sink\<close>

datatype read_err = RNone | REOF | RErr error

datatype sink_site = SClose | SRemove | SRename | SReopen | SWrite | SSync

record sink_state =
  sink_cur :: string
  sink_old :: "string option"
  sink_size :: int

definition sink_rotate :: "(sink_site \<Rightarrow> error option) \<Rightarrow> sink_state \<Rightarrow> sink_state \<times> error option" where
  "sink_rotate flt s =
     (case flt SClose of Some e \<Rightarrow> (s, Some e) | None \<Rightarrow>
      (case flt SRemove of
         Some e \<Rightarrow> if e \<noteq> ErrNotExist then (s, Some e) else
           (case flt SRename of Some e \<Rightarrow> (s, Some e) | None \<Rightarrow>
            (case flt SReopen of
               Some e \<Rightarrow> (s\<lparr>sink_old := Some (sink_cur s), sink_cur := []\<rparr>, Some e)
             | None \<Rightarrow> (s\<lparr>sink_old := Some (sink_cur s), sink_cur := [], sink_size := 0\<rparr>, None)))
       | None \<Rightarrow>
           (case flt SRename of Some e \<Rightarrow> (s\<lparr>sink_old := None\<rparr>, Some e) | None \<Rightarrow>
            (case flt SReopen of
               Some e \<Rightarrow> (s\<lparr>sink_old := Some (sink_cur s), sink_cur := []\<rparr>, Some e)
             | None \<Rightarrow> (s\<lparr>sink_old := Some (sink_cur s), sink_cur := [], sink_size := 0\<rparr>, None)))))"

text \<open>One round of the loop: the bytes a read returned go to the file, after a rotation when
  they would exceed the limit.\<close>

definition sink_write :: "(sink_site \<Rightarrow> error option) \<Rightarrow> string \<Rightarrow> sink_state \<Rightarrow> sink_state \<times> error option" where
  "sink_write flt b s =
     (if b = [] then (s, None)
      else
        (case (if sink_size s + int (length b) > int Limit then sink_rotate flt s else (s, None)) of
           (s, Some e) \<Rightarrow> (s, Some e)
         | (s, None) \<Rightarrow>
             (case flt SWrite of Some e \<Rightarrow> (s, Some e)
              | None \<Rightarrow> (s\<lparr>sink_cur := sink_cur s @ b, sink_size := sink_size s + int (length b)\<rparr>, None))))"

fun Sink_loop :: "(nat \<Rightarrow> sink_site \<Rightarrow> error option) \<Rightarrow> nat \<Rightarrow> (string \<times> read_err) list \<Rightarrow> sink_state \<Rightarrow> sink_state \<times> error option" where
  "Sink_loop flt k [] s = (s, None)"
| "Sink_loop flt k ((b, re) # rs) s =
     (case sink_write (flt k) b s of
        (s, Some e) \<Rightarrow> (s, Some e)
      | (s, None) \<Rightarrow>
          (case re of REOF \<Rightarrow> (s, flt k SSync) | RErr e \<Rightarrow> (s, Some e)
           | RNone \<Rightarrow> Sink_loop flt (Suc k) rs s))"

definition Sink :: "error option \<Rightarrow> error option \<Rightarrow> (nat \<Rightarrow> sink_site \<Rightarrow> error option) \<Rightarrow> (string \<times> read_err) list \<Rightarrow>
    string option \<Rightarrow> string option \<Rightarrow> string option \<times> string option \<times> error option" where
  "Sink open_err stat_err flt reads cur old =
     (case open_err of Some e \<Rightarrow> (cur, old, Some e) | None \<Rightarrow>
      (let c = (case cur of None \<Rightarrow> [] | Some c \<Rightarrow> c) in
       case stat_err of Some e \<Rightarrow> (Some c, old, Some e) | None \<Rightarrow>
       (case Sink_loop flt 0 reads \<lparr>sink_cur = c, sink_old = old, sink_size = int (length c)\<rparr> of
          (s, e) \<Rightarrow> (Some (sink_cur s), sink_old s, e))))"

section \<open>Invariants\<close>

definition journal_inv :: "Journal \<Rightarrow> bool" where
  "journal_inv j \<longleftrightarrow>
     Journal_bytes j = sum_list (map frame_cost (Journal_frames j)) \<and>
     (Journal_bytes j \<le> int Limit \<or> length (Journal_frames j) \<le> 1) \<and>
     length (Journal_frames j) \<le> Journal_seq j \<and>
     map Frame_Sequence (Journal_frames j) = [Suc (Journal_seq j) - length (Journal_frames j)..<Suc (Journal_seq j)]"

definition lines_of :: "string \<Rightarrow> log_files \<Rightarrow> Frame list" where
  "lines_of path files =
     (case files (path @ ''.1'') of None \<Rightarrow> [] | Some ls \<Rightarrow> ls) @ (case files path of None \<Rightarrow> [] | Some ls \<Rightarrow> ls)"

text \<open>The frames on disk are consecutive and end with the last one written.\<close>

definition files_inv :: "nat \<Rightarrow> string \<Rightarrow> log_files \<Rightarrow> bool" where
  "files_inv seq path files \<longleftrightarrow>
     length (lines_of path files) \<le> seq \<and> (0 < seq \<longrightarrow> lines_of path files \<noteq> []) \<and>
     map Frame_Sequence (lines_of path files) = [Suc seq - length (lines_of path files)..<Suc seq]"

text \<open>The frames a \<open>Write\<close> of bytes \<open>b\<close> adds: pieces of \<open>b\<close>, in order, numbered from \<open>seq\<close>.\<close>

definition written :: "string \<Rightarrow> string \<Rightarrow> nat \<Rightarrow> Frame list \<Rightarrow> bool" where
  "written kind b seq new \<longleftrightarrow>
     concat (map Frame_Data new) = b \<and> map Frame_Sequence new = [Suc seq..<Suc (seq + length new)] \<and>
     (\<forall>f \<in> set new. Frame_Type f = kind \<and> Frame_Data f \<noteq> [] \<and> length (Frame_Data f) \<le> 32768)"

section \<open>Lemmas\<close>

lemma evict_spec:
  assumes "evict b fs = (b', fs')" "b = sum_list (map frame_cost fs)"
  shows "b' = sum_list (map frame_cost fs') \<and> suffix fs' fs \<and> (fs \<noteq> [] \<longrightarrow> fs' \<noteq> []) \<and>
    (b' \<le> int Limit \<or> length fs' \<le> 1)"
  using assms
proof (induction b fs arbitrary: b' fs' rule: evict.induct)
  case (2 b f fs)
  show ?case
  proof (cases "b > int Limit \<and> length (f # fs) > 1")
    case True
    with 2 show ?thesis by (auto intro: suffix_ConsI)
  next
    case False
    then have "(b', fs') = (b, f # fs)" using "2.prems"(1) by (simp only: evict.simps if_False)
    with False "2.prems"(2) show ?thesis by auto
  qed
qed simp

lemma append_frame_fields [simp]:
  "Journal_seq (append_frame f j) = Journal_seq j" "Journal_Path (append_frame f j) = Journal_Path j"
  by (simp_all add: append_frame_def split: prod.splits)

lemma append_frame_suffix: 
  assumes "Journal_bytes j = sum_list (map frame_cost (Journal_frames j))"
  shows "Journal_bytes (append_frame f j) = sum_list (map frame_cost (Journal_frames (append_frame f j)))"
    "suffix (Journal_frames (append_frame f j)) (Journal_frames j @ [f])"
    "Journal_frames (append_frame f j) \<noteq> []"
    "Journal_bytes (append_frame f j) \<le> int Limit \<or> length (Journal_frames (append_frame f j)) \<le> 1"
proof -
  obtain b fs where e: "evict (Journal_bytes j + frame_cost f) (Journal_frames j @ [f]) = (b, fs)" by fastforce
  from evict_spec [OF e] assms have
    "b = sum_list (map frame_cost fs)" "suffix fs (Journal_frames j @ [f])" "fs \<noteq> []" "b \<le> int Limit \<or> length fs \<le> 1"
    by auto
  then show "Journal_bytes (append_frame f j) = sum_list (map frame_cost (Journal_frames (append_frame f j)))"
    "suffix (Journal_frames (append_frame f j)) (Journal_frames j @ [f])"
    "Journal_frames (append_frame f j) \<noteq> []"
    "Journal_bytes (append_frame f j) \<le> int Limit \<or> length (Journal_frames (append_frame f j)) \<le> 1"
    by (simp_all add: append_frame_def e)
qed

lemma suffix_upt:
  assumes "suffix fs gs" "map g gs = [a..<Suc n]" "length gs \<le> n"
  shows "map g fs = [Suc n - length fs..<Suc n]" "length fs \<le> n"
proof -
  from assms(1) obtain hs where gs: "gs = hs @ fs" by (auto simp: suffix_def)
  have "map g fs = drop (length hs) [a..<Suc n]"
    using assms(2) gs by (metis append_eq_conv_conj length_map map_append)
  then have m: "map g fs = [a + length hs..<Suc n]" by (simp only: drop_upt)
  then have "length fs = Suc n - (a + length hs)" by (metis length_map length_upt)
  with m show "map g fs = [Suc n - length fs..<Suc n]"
    by (cases "a + length hs \<le> Suc n") auto
  show "length fs \<le> n" using assms(3) gs by simp
qed

lemma append_frame_inv:
  assumes "journal_inv j" "Frame_Sequence f = Suc (Journal_seq j)"
  shows "journal_inv (append_frame f (j\<lparr>Journal_seq := Suc (Journal_seq j)\<rparr>))"
proof -
  let ?j = "j\<lparr>Journal_seq := Suc (Journal_seq j)\<rparr>"
  have b: "Journal_bytes ?j = sum_list (map frame_cost (Journal_frames ?j))"
    using assms(1) by (simp add: journal_inv_def)
  note a = append_frame_suffix [OF b, of f]
  have m: "map Frame_Sequence (Journal_frames ?j @ [f]) =
      [Suc (Journal_seq j) - length (Journal_frames j)..<Suc (Suc (Journal_seq j))]"
    using assms by (simp add: journal_inv_def)
  have l: "length (Journal_frames ?j @ [f]) \<le> Suc (Journal_seq j)"
    using assms(1) by (simp add: journal_inv_def)
  show ?thesis
    using suffix_upt [OF a(2) m l] a(1,4) by (simp add: journal_inv_def del: upt_Suc)
qed

text \<open>Loading consecutive frames into a journal that ends right before them.\<close>

lemma load_frames_inv:
  assumes "journal_inv j" "map Frame_Sequence ls = [Suc (Journal_seq j)..<Suc (Journal_seq j + length ls)]"
  shows "journal_inv (foldl load_frame j ls) \<and> Journal_seq (foldl load_frame j ls) = Journal_seq j + length ls"
  using assms
proof (induction ls arbitrary: j)
  case (Cons f ls)
  have up: "[Suc (Journal_seq j)..<Suc (Journal_seq j + length (f # ls))] =
      Suc (Journal_seq j) # [Suc (Suc (Journal_seq j))..<Suc (Suc (Journal_seq j) + length ls)]"
    by (subst upt_conv_Cons) simp_all
  have f: "Frame_Sequence f = Suc (Journal_seq j)"
    and ls: "map Frame_Sequence ls = [Suc (Suc (Journal_seq j))..<Suc (Suc (Journal_seq j) + length ls)]"
    using Cons.prems(2) unfolding up by auto
  have l: "load_frame j f = append_frame f (j\<lparr>Journal_seq := Suc (Journal_seq j)\<rparr>)"
    by (simp add: load_frame_def append_frame_def f Let_def split: prod.splits)
  have "Journal_seq (load_frame j f) = Suc (Journal_seq j)" by (simp add: l)
  with Cons.IH [of "load_frame j f"] append_frame_inv [OF Cons.prems(1) f] ls show ?case by (simp add: l)
qed simp

text \<open>The first frame loaded may carry any number: a rotated file starts in the middle.\<close>

lemma load_frames_start:
  assumes "map Frame_Sequence ls = [Suc n - length ls..<Suc n]" "length ls \<le> n" "ls \<noteq> []"
  shows "journal_inv (foldl load_frame \<lparr>Journal_Path = p, Journal_frames = [], Journal_bytes = 0, Journal_seq = 0\<rparr> ls) \<and>
    Journal_seq (foldl load_frame \<lparr>Journal_Path = p, Journal_frames = [], Journal_bytes = 0, Journal_seq = 0\<rparr> ls) = n"
proof -
  define j0 where "j0 = \<lparr>Journal_Path = p, Journal_frames = [], Journal_bytes = 0, Journal_seq = 0\<rparr>"
  define m where "m = n - length ls"
  define j where "j = \<lparr>Journal_Path = p, Journal_frames = [], Journal_bytes = 0, Journal_seq = m\<rparr>"
  from assms(3) obtain f gs where ls: "ls = f # gs" by (cases ls) auto
  have m: "m + length ls = n" "Suc n - length ls = Suc m" using assms(2) by (simp_all add: m_def)
  then have seqs: "map Frame_Sequence ls = [Suc m..<Suc (m + length ls)]" using assms(1) by simp
  have "hd (map Frame_Sequence ls) = Suc m" unfolding seqs by (rule hd_upt) (simp add: ls)
  then have f: "Frame_Sequence f = Suc m" by (simp add: ls)
  have j: "journal_inv j" "Journal_seq j = m" by (simp_all add: j_def journal_inv_def)
  have "load_frame j0 f = load_frame j f"
    by (simp add: load_frame_def append_frame_def f Let_def j0_def j_def)
  then have "foldl load_frame j0 ls = foldl load_frame j ls" by (simp add: ls)
  moreover have "journal_inv (foldl load_frame j ls) \<and> Journal_seq (foldl load_frame j ls) = Journal_seq j + length ls"
    using load_frames_inv [OF j(1)] seqs j(2) by simp
  ultimately have "journal_inv (foldl load_frame j0 ls) \<and> Journal_seq (foldl load_frame j0 ls) = n"
    using j(2) m(1) by simp
  then show ?thesis by (simp only: j0_def)
qed

lemma lines_of_upd:
  "lines_of path (files(path \<mapsto> ls)) = (case files (path @ ''.1'') of None \<Rightarrow> [] | Some ls \<Rightarrow> ls) @ ls"
  by (simp add: lines_of_def)

lemma rotate_lines:
  assumes "rotate env k path files = (files', None)"
  shows "suffix (lines_of path files') (lines_of path files)" "lines_of path files \<noteq> [] \<Longrightarrow> lines_of path files' \<noteq> []"
proof -
  consider "files' = files" | ls where "files path = Some ls" "file_size (log_enc env) ls > Limit"
      "files' = files(path @ ''.1'' := Some ls, path := None)"
    using assms unfolding rotate_def
    by (cases "log_fault env k LStat"; cases "files path"; cases "log_fault env k LRename")
      (simp_all split: if_splits)
  then have "suffix (lines_of path files') (lines_of path files) \<and> (lines_of path files \<noteq> [] \<longrightarrow> lines_of path files' \<noteq> [])"
  proof cases
    case 2
    then have "ls \<noteq> []" by (cases ls) (simp_all add: file_size_def)
    moreover have "lines_of path files' = ls" "suffix ls (lines_of path files)"
      using 2 by (simp_all add: lines_of_def suffix_def)
    ultimately show ?thesis by simp
  qed simp
  then show "suffix (lines_of path files') (lines_of path files)"
    "lines_of path files \<noteq> [] \<Longrightarrow> lines_of path files' \<noteq> []" by auto
qed

lemma persist_lines:
  assumes "persist env k path f files = (files', None)"
  obtains ls where "suffix ls (lines_of path files)" "lines_of path files' = ls @ [f]"
proof -
  obtain files1 where r: "rotate env k path files = (files1, None)"
    and f: "files' = files1(path \<mapsto> (case files1 path of None \<Rightarrow> [] | Some ls \<Rightarrow> ls) @ [f])"
    using assms unfolding persist_def Let_def
    by (cases "rotate env k path files"; cases "snd (rotate env k path files)"; cases "log_fault env k LOpen";
        cases "log_fault env k LEncode") simp_all
  have "lines_of path files' = lines_of path files1 @ [f]"
    unfolding f lines_of_upd by (simp add: lines_of_def)
  with rotate_lines(1) [OF r] show thesis by (rule that)
qed

lemma persist_files_inv:
  assumes "files_inv seq path files" "persist env k path f files = (files', None)" "Frame_Sequence f = Suc seq"
  shows "files_inv (Suc seq) path files'"
proof -
  obtain ls where ls: "suffix ls (lines_of path files)" "lines_of path files' = ls @ [f]"
    using persist_lines [OF assms(2)] by blast
  have "map Frame_Sequence ls = [Suc seq - length ls..<Suc seq]" "length ls \<le> seq"
    using suffix_upt [OF ls(1)] assms(1) unfolding files_inv_def by blast+
  then show ?thesis using assms(3) ls(2) by (simp add: files_inv_def)
qed

lemma new_frame_sel [simp]:
  "Frame_Type (new_frame kind b n t) = kind" "Frame_Data (new_frame kind b n t) = b"
  "Frame_Sequence (new_frame kind b n t) = n"
  by (simp_all add: new_frame_def)

lemma written_Cons:
  assumes "b \<noteq> []" "n = min 32768 (length b)" "written kind c (Suc seq) new" "prefix c (drop n b)"
  shows "written kind (take n b @ c) seq (new_frame kind (take n b) (Suc seq) t # new)"
proof -
  have "[Suc seq..<Suc (seq + length (new_frame kind (take n b) (Suc seq) t # new))] =
      Suc seq # [Suc (Suc seq)..<Suc (Suc seq + length new)]"
    by (subst upt_conv_Cons) simp_all
  with assms show ?thesis by (simp add: written_def del: upt_Suc)
qed

declare Write_loop.simps [simp del]

lemma Write_loop_spec:
  assumes "journal_inv j" "Journal_seq j + length b < 2 ^ 64"
    "Write_loop env k kind b j files = ((j', files'), r)"
  shows "\<exists>c new. prefix c b \<and> (r = None \<longrightarrow> c = b) \<and> written kind c (Journal_seq j) new \<and>
    suffix (Journal_frames j') (Journal_frames j @ new) \<and> Journal_seq j' = Journal_seq j + length new \<and>
    journal_inv j' \<and> Journal_Path j' = Journal_Path j \<and> (Journal_Path j = [] \<longrightarrow> r = None) \<and>
    (r = None \<longrightarrow> Journal_Path j \<noteq> [] \<longrightarrow> files_inv (Journal_seq j) (Journal_Path j) files \<longrightarrow>
       files_inv (Journal_seq j') (Journal_Path j) files')"
  using assms
proof (induction "length b" arbitrary: b j files k rule: less_induct)
  case less
  note prems = less.prems
  show ?case
  proof (cases "b = []")
    case True
    with prems show ?thesis
      by (intro exI [of _ "[]"]) (auto simp: Write_loop.simps written_def)
  next
    case False
    define n where "n = (if length b > 32768 then 32768 else length b)"
    have n: "n = min 32768 (length b)" "0 < n" using False by (auto simp: n_def)
    define f where "f = new_frame kind (take n b) (Suc (Journal_seq j)) (log_now env k)"
    define j1 where "j1 = append_frame f (j\<lparr>Journal_seq := Suc (Journal_seq j)\<rparr>)"
    have w: "wrapu64 (Suc (Journal_seq j)) = Suc (Journal_seq j)"
      using prems(2) False by (cases b) simp_all
    have f: "Frame_Sequence f = Suc (Journal_seq j)" by (simp add: f_def)
    have j1: "journal_inv j1" unfolding j1_def by (rule append_frame_inv [OF prems(1) f])
    have sj: "Journal_seq j1 = Suc (Journal_seq j)" "Journal_Path j1 = Journal_Path j" by (simp_all add: j1_def)
    have "0 < length b" "n \<le> length b" using False n by auto
    then have len: "Journal_seq j1 + length (drop n b) < 2 ^ 64" using prems(2) sj n(2) by simp
    have b: "Journal_bytes (j\<lparr>Journal_seq := Suc (Journal_seq j)\<rparr>) =
        sum_list (map frame_cost (Journal_frames (j\<lparr>Journal_seq := Suc (Journal_seq j)\<rparr>)))"
      using prems(1) by (simp add: journal_inv_def)
    have suf: "suffix (Journal_frames j1) (Journal_frames j @ [f])"
      using append_frame_suffix(2) [OF b, of f] by (simp add: j1_def)
    have step: "Write_loop env k kind b j files =
        (if Journal_Path j = [] then Write_loop env (Suc k) kind (drop n b) j1 files
         else case persist env k (Journal_Path j) f files of
           (files', Some e) \<Rightarrow> ((j1, files'), Some e)
         | (files', None) \<Rightarrow> Write_loop env (Suc k) kind (drop n b) j1 files')"
      using False by (subst Write_loop.simps) (simp add: Let_def n_def [symmetric] w f_def [symmetric] j1_def [symmetric])
    note ihp = less.hyps [OF _ j1 len]
    consider (stop) files1 e where "Journal_Path j \<noteq> []" "persist env k (Journal_Path j) f files = (files1, Some e)"
      | (go) files1 where "Write_loop env (Suc k) kind (drop n b) j1 files1 = ((j', files'), r)"
          "Journal_Path j = [] \<or> persist env k (Journal_Path j) f files = (files1, None)"
      using prems(3) unfolding step by (auto split: if_splits prod.splits option.splits)
    then show ?thesis
    proof cases
      case stop
      then have r: "j' = j1" "r = Some e" using prems(3) unfolding step by auto
      have "written kind (take n b @ []) (Journal_seq j) (f # [])"
        unfolding f_def by (rule written_Cons [OF False n(1)]) (simp_all add: written_def)
      with r stop suf sj j1 show ?thesis
        by (intro exI [of _ "take n b"] exI [of _ "[f]"]) (auto simp: take_is_prefix)
    next
      case go
      have fi: "files_inv (Suc (Journal_seq j)) (Journal_Path j) files1"
        if "Journal_Path j \<noteq> []" "files_inv (Journal_seq j) (Journal_Path j) files"
        using persist_files_inv [OF that(2) _ f] go(2) that(1) by blast
      have "length (drop n b) < length b" using n False by simp
      from ihp [OF this go(1)] obtain c new where IH: "prefix c (drop n b)" "r = None \<longrightarrow> c = drop n b"
          "written kind c (Journal_seq j1) new" "suffix (Journal_frames j') (Journal_frames j1 @ new)"
          "Journal_seq j' = Journal_seq j1 + length new" "journal_inv j'" "Journal_Path j' = Journal_Path j1"
          "Journal_Path j1 = [] \<longrightarrow> r = None"
          "r = None \<longrightarrow> Journal_Path j1 \<noteq> [] \<longrightarrow> files_inv (Journal_seq j1) (Journal_Path j1) files1 \<longrightarrow>
             files_inv (Journal_seq j') (Journal_Path j1) files'"
        by blast
      have wr: "written kind (take n b @ c) (Journal_seq j) (f # new)"
        unfolding f_def using IH(3) unfolding sj by (rule written_Cons [OF False n(1) _ IH(1)])
      have "suffix (Journal_frames j1 @ new) ((Journal_frames j @ [f]) @ new)"
        using suf by (simp add: suffix_def)
      then have sf: "suffix (Journal_frames j') (Journal_frames j @ f # new)"
        using suffix_order.trans [OF IH(4)] by simp
      from IH(1) obtain zs where "drop n b = c @ zs" by (auto simp: prefix_def)
      then have "b = (take n b @ c) @ zs" by (metis append_assoc append_take_drop_id)
      then have pc: "prefix (take n b @ c) b" by (rule prefixI)
      have pn: "r = None \<longrightarrow> take n b @ c = b" using IH(2) by simp
      show ?thesis
        using wr sf pc pn IH(5-9) fi sj
        by (intro exI [of _ "take n b @ c"] exI [of _ "f # new"]) auto
    qed
  qed
qed

lemma take_batch_split:
  assumes "fs \<noteq> []"
  obtains ps qs where "take_batch n fs = ps" "fs = ps @ qs" "ps \<noteq> []"
proof -
  have "\<exists>qs. fs = take_batch n fs @ qs \<and> (fs \<noteq> [] \<longrightarrow> take_batch n fs \<noteq> [])"
    by (induction n fs rule: take_batch.induct) auto
  with assms that show thesis by blast
qed

abbreviation seq_sorted :: "Frame list \<Rightarrow> bool" where
  "seq_sorted \<equiv> sorted_wrt (\<lambda>f g. Frame_Sequence f < Frame_Sequence g)"

lemma seq_sorted_upt: "map Frame_Sequence fs = [a..<b] \<Longrightarrow> seq_sorted fs"
  using sorted_wrt_map [of "(<)" Frame_Sequence fs] by simp

lemma filter_after_batch:
  assumes "seq_sorted fs" "filter (\<lambda>f. Frame_Sequence f > a) fs = ps @ qs" "ps \<noteq> []"
  shows "filter (\<lambda>f. Frame_Sequence f > Frame_Sequence (last ps)) fs = qs" "a < Frame_Sequence (last ps)"
proof -
  let ?c = "Frame_Sequence (last ps)"
  have "seq_sorted (ps @ qs)" using sorted_wrt_filter [OF assms(1)] assms(2) by metis
  moreover obtain rs l where rl: "ps = rs @ [l]" using assms(3) by (metis append_butlast_last_id)
  ultimately have ps: "f \<in> set ps \<Longrightarrow> Frame_Sequence f \<le> ?c" and qs: "f \<in> set qs \<Longrightarrow> ?c < Frame_Sequence f" for f
    by (auto simp: sorted_wrt_append)
  have "last ps \<in> set (filter (\<lambda>f. Frame_Sequence f > a) fs)" using assms(2,3) by simp
  then show c: "a < ?c" by simp
  have "filter (\<lambda>f. Frame_Sequence f > ?c) fs = filter (\<lambda>f. Frame_Sequence f > ?c) (filter (\<lambda>f. Frame_Sequence f > a) fs)"
    using c by (auto intro: filter_cong)
  also have "\<dots> = filter (\<lambda>f. Frame_Sequence f > ?c) ps @ filter (\<lambda>f. Frame_Sequence f > ?c) qs"
    by (simp only: assms(2) filter_append)
  also have "filter (\<lambda>f. Frame_Sequence f > ?c) ps = []" using ps by (simp add: filter_empty_conv not_less)
  also have "filter (\<lambda>f. Frame_Sequence f > ?c) qs = qs" using qs by (simp add: filter_True)
  finally show "filter (\<lambda>f. Frame_Sequence f > ?c) fs = qs" by simp
qed

lemma drain_rest:
  assumes "seq_sorted (Journal_frames j)" "Journal_frames j \<noteq> []"
    "Frame_Sequence (hd (Journal_frames j)) \<le> after + 1" "after + 1 < 2 ^ 64"
    "\<And>f. f \<in> set (Journal_frames j) \<Longrightarrow> Frame_Sequence f + 1 < 2 ^ 64"
  shows "drain after j = Some (filter (\<lambda>f. Frame_Sequence f > after) (Journal_frames j))"
  using assms(3,4)
proof (induction "length (filter (\<lambda>f. Frame_Sequence f > after) (Journal_frames j))" arbitrary: after rule: less_induct)
  case less
  let ?F = "filter (\<lambda>f. Frame_Sequence f > after) (Journal_frames j)"
  have R: "Read after j = take_batch 0 ?F"
    using assms(2) less.prems by (cases "Journal_frames j") (auto simp: Read_def)
  show ?case
  proof (cases "?F = []")
    case True
    then show ?thesis by (simp add: drain.simps [of after] R)
  next
    case False
    then obtain ps qs where pq: "take_batch 0 ?F = ps" "?F = ps @ qs" "ps \<noteq> []"
      by (rule take_batch_split)
    note rest = filter_after_batch [OF assms(1) pq(2,3)]
    have "last ps \<in> set ?F" using pq(2,3) by simp
    then have "last ps \<in> set (Journal_frames j)" by simp
    then have "Frame_Sequence (last ps) + 1 < 2 ^ 64" by (rule assms(5))
    moreover have "length qs < length ?F" using pq(2,3) by simp
    ultimately have "drain (Frame_Sequence (last ps)) j = Some qs"
      using less.hyps [of "Frame_Sequence (last ps)"] rest less.prems(1) by simp
    then show ?thesis using pq by (simp add: drain.simps [of after] R)
  qed
qed

lemma journal_inv_seqs:
  assumes "journal_inv j"
  shows "seq_sorted (Journal_frames j)" "f \<in> set (Journal_frames j) \<Longrightarrow> Frame_Sequence f \<le> Journal_seq j"
proof -
  have m: "map Frame_Sequence (Journal_frames j) = [Suc (Journal_seq j) - length (Journal_frames j)..<Suc (Journal_seq j)]"
    using assms by (simp only: journal_inv_def)
  then show "seq_sorted (Journal_frames j)" by (rule seq_sorted_upt)
  assume "f \<in> set (Journal_frames j)"
  then have "Frame_Sequence f \<in> set (map Frame_Sequence (Journal_frames j))" by simp
  then show "Frame_Sequence f \<le> Journal_seq j" unfolding m by (simp add: less_Suc_eq_le del: upt_Suc)
qed

lemma Open_journal_lines:
  assumes "\<And>f. f \<in> set (lines_of path files) \<Longrightarrow> enc f \<le> 1048576"
  shows "Open_journal enc (\<lambda>_. None) files path = foldl load_frame
    \<lparr>Journal_Path = path, Journal_frames = [], Journal_bytes = 0, Journal_seq = 0\<rparr> (lines_of path files)"
proof -
  have "takeWhile (\<lambda>f. enc f \<le> 1048576) ls = ls" if "files (path @ ''.1'') = Some ls" for ls
    using assms that by (simp add: lines_of_def)
  moreover have "takeWhile (\<lambda>f. enc f \<le> 1048576) ls = ls" if "files path = Some ls" for ls
    using assms that by (simp add: lines_of_def)
  ultimately show ?thesis
    unfolding Open_journal_def lines_of_def
    by (cases "files (path @ ''.1'')"; cases "files path") (simp_all del: takeWhile_eq_all_conv)
qed

section \<open>Properties of the journal\<close>



text \<open>C12. The sequence numbers survive a restart: reopening the files after a write that
  succeeded gives a journal whose next number continues where the writer stopped, so that
  the cursor of a reader stays valid.\<close>

theorem restart_keeps_sequence:
  assumes "journal_inv j" "Journal_seq j + length b < 2 ^ 64" "Journal_Path j \<noteq> []"
    and "files_inv (Journal_seq j) (Journal_Path j) files"
    and "Write env kind b j files = ((j', files'), None)"
    and "\<forall>f \<in> set (lines_of (Journal_Path j) files'). log_enc env f \<le> 1048576"
  shows "Journal_seq (Open_journal (log_enc env) (\<lambda>_. None) files' (Journal_Path j)) = Journal_seq j' \<and>
    (0 < Journal_seq j' \<longrightarrow> journal_inv (Open_journal (log_enc env) (\<lambda>_. None) files' (Journal_Path j)))"
proof -
  let ?p = "Journal_Path j"
  have fi: "files_inv (Journal_seq j') ?p files'"
    using Write_loop_spec [OF assms(1,2) assms(5) [unfolded Write_def]] assms(3,4) by blast
  have o: "Open_journal (log_enc env) (\<lambda>_. None) files' ?p = foldl load_frame
    \<lparr>Journal_Path = ?p, Journal_frames = [], Journal_bytes = 0, Journal_seq = 0\<rparr> (lines_of ?p files')"
    using assms(6) by (intro Open_journal_lines) blast
  show ?thesis
  proof (cases "lines_of ?p files' = []")
    case True
    with fi have "Journal_seq j' = 0" by (simp add: files_inv_def)
    with True show ?thesis by (simp add: o)
  next
    case False
    with fi load_frames_start [of "lines_of ?p files'" "Journal_seq j'" ?p] show ?thesis
      unfolding o files_inv_def by blast
  qed
qed

theorem restart_keeps_sequence_witness:
  "\<exists>j' files'. Write \<lparr>log_enc = \<lambda>_. 1, log_fault = \<lambda>_ _. None, log_now = \<lambda>_. 0\<rparr> ''stdout'' ''hi''
      \<lparr>Journal_Path = ''log'', Journal_frames = [], Journal_bytes = 0, Journal_seq = 0\<rparr> Map.empty = ((j', files'), None) \<and>
    Journal_seq (Open_journal (\<lambda>_. 1) (\<lambda>_. None) files' ''log'') = 1"
proof -
  let ?env = "\<lparr>log_enc = \<lambda>_. 1, log_fault = \<lambda>_ _. None, log_now = \<lambda>_. 0\<rparr>"
  let ?j = "\<lparr>Journal_Path = ''log'', Journal_frames = [], Journal_bytes = 0, Journal_seq = 0\<rparr>"
  have i: "journal_inv ?j" "Journal_seq ?j + length ''hi'' < 2 ^ 64" "Journal_Path ?j \<noteq> []"
    by (simp_all add: journal_inv_def)
  have fi: "files_inv (Journal_seq ?j) (Journal_Path ?j) Map.empty" by (simp add: files_inv_def lines_of_def)
  obtain j' files' where w: "Write ?env ''stdout'' ''hi'' ?j Map.empty = ((j', files'), None)" and s: "Journal_seq j' = 1"
    by (simp add: Write_def Write_loop.simps persist_def rotate_def Let_def)
  from restart_keeps_sequence [OF i fi w] s w show ?thesis by auto
qed

lemma drain_all:
  assumes "journal_inv j" "Journal_seq j + 1 < 2 ^ 64" "after + 1 < 2 ^ 64"
  shows "drain after j = Some
    ((if after < Journal_seq j - length (Journal_frames j) \<and> Journal_frames j \<noteq> []
      then [gap_frame (Journal_seq j - length (Journal_frames j))] else []) @
     filter (\<lambda>f. Frame_Sequence f > after) (Journal_frames j))"
proof (cases "Journal_frames j")
  case Nil
  then show ?thesis by (simp add: drain.simps [of after] Read_def)
next
  case (Cons f fs)
  note inv = journal_inv_seqs [OF assms(1)]
  have b: "g \<in> set (Journal_frames j) \<Longrightarrow> Frame_Sequence g + 1 < 2 ^ 64" for g
    using inv(2) [of g] assms(2) by simp
  have len: "length (Journal_frames j) \<le> Journal_seq j" using assms(1) by (simp add: journal_inv_def)
  have "hd (map Frame_Sequence (Journal_frames j)) = Suc (Journal_seq j) - length (Journal_frames j)"
    using assms(1) Cons unfolding journal_inv_def by (metis hd_upt length_map length_upt length_Cons zero_less_Suc zero_less_diff)
  then have hd: "Frame_Sequence f = Suc (Journal_seq j - length (Journal_frames j))"
    using Cons len by (simp add: Suc_diff_le)
  show ?thesis
  proof (cases "after + 1 < Frame_Sequence f")
    case False
    then have "drain after j = Some (filter (\<lambda>f. Frame_Sequence f > after) (Journal_frames j))"
      using Cons assms(3) by (intro drain_rest [OF inv(1) _ _ _ b]) auto
    then show ?thesis using False hd by simp
  next
    case True
    let ?g = "gap_frame (Journal_seq j - length (Journal_frames j))"
    have all: "filter (\<lambda>f. Frame_Sequence f > after) (Journal_frames j) = Journal_frames j"
    proof (rule filter_True, rule ballI)
      fix g assume "g \<in> set (Journal_frames j)"
      then have "Frame_Sequence f \<le> Frame_Sequence g" using inv(1) Cons by (auto simp: less_imp_le)
      then show "after < Frame_Sequence g" using True by simp
    qed
    obtain ps qs where pq: "take_batch 0 (Journal_frames j) = ps" "Journal_frames j = ps @ qs" "ps \<noteq> []"
      using Cons by (metis take_batch_split list.distinct(1))
    have R: "Read after j = ?g # ps"
      using True all pq(1) Cons hd assms(3) by (simp add: Read_def)
    have fl: "filter (\<lambda>f. Frame_Sequence f > after) (Journal_frames j) = ps @ qs" using all pq(2) by simp
    note rest = filter_after_batch [OF inv(1) fl pq(3)]
    have "last ps \<in> set (Journal_frames j)" using pq(2,3) by simp
    then have l: "Frame_Sequence (last ps) + 1 < 2 ^ 64" "Frame_Sequence f \<le> Frame_Sequence (last ps) + 1"
      using b inv(1) Cons by (auto simp: less_imp_le le_SucI)
    then have "drain (Frame_Sequence (last ps)) j = Some qs"
      using drain_rest [OF inv(1) _ _ l(1) b] rest(1) Cons by simp
    then show ?thesis using R True hd all pq Cons by (simp add: drain.simps [of after])
  qed
qed

text \<open>C13. Draining the journal terminates and is complete: starting from any cursor, the loop
  that reads batches and moves its cursor to the last frame returns each retained frame
  after the cursor exactly once and in order, preceded by one gap notice exactly when the
  frame next to the cursor has already been evicted.\<close>

theorem drain_complete:
  assumes "journal_inv j" "Journal_seq j + 1 < 2 ^ 64" "after + 1 < 2 ^ 64"
  shows "drain after j = Some
    ((if after < Journal_seq j - length (Journal_frames j) \<and> Journal_frames j \<noteq> []
      then [gap_frame (Journal_seq j - length (Journal_frames j))] else []) @
     filter (\<lambda>f. Frame_Sequence f > after) (Journal_frames j))"
  using assms by (rule drain_all)

theorem drain_complete_witness:
  "drain 1 \<lparr>Journal_Path = [], Journal_frames = [new_frame ''stdout'' ''a'' 4 0, new_frame ''stdout'' ''b'' 5 0],
       Journal_bytes = 258, Journal_seq = 5\<rparr> =
   Some [gap_frame 3, new_frame ''stdout'' ''a'' 4 0, new_frame ''stdout'' ''b'' 5 0]"
proof -
  let ?j = "\<lparr>Journal_Path = [], Journal_frames = [new_frame ''stdout'' ''a'' 4 0, new_frame ''stdout'' ''b'' 5 0],
       Journal_bytes = 258, Journal_seq = 5\<rparr>"
  have "journal_inv ?j" by (simp add: journal_inv_def frame_cost_def Limit_def upt_rec)
  from drain_complete [OF this, of 1] show ?thesis by simp
qed

section \<open>Properties of the sink\<close>

definition sink_inv :: "sink_state \<Rightarrow> bool" where
  "sink_inv s \<longleftrightarrow> length (sink_cur s) \<le> Limit \<and> (\<forall>c. sink_old s = Some c \<longrightarrow> length c \<le> Limit) \<and>
     sink_size s = int (length (sink_cur s))"

definition sink_text :: "sink_state \<Rightarrow> string" where
  "sink_text s = (case sink_old s of None \<Rightarrow> [] | Some c \<Rightarrow> c) @ sink_cur s"

lemma sink_rotate_spec:
  assumes "sink_inv s" "sink_rotate flt s = (s', r)"
  shows "length (sink_cur s') \<le> Limit \<and> (\<forall>c. sink_old s' = Some c \<longrightarrow> length c \<le> Limit) \<and>
    suffix (sink_text s') (sink_text s) \<and> (r = None \<longrightarrow> sink_inv s' \<and> sink_cur s' = [] \<and> sink_text s' = sink_cur s)"
proof (cases "flt SClose = None \<and> (flt SRemove = None \<or> flt SRemove = Some ErrNotExist) \<and> flt SRename = None")
  case True
  then have s': "sink_old s' = Some (sink_cur s)" "sink_cur s' = []" "r = None \<Longrightarrow> sink_size s' = 0"
    using assms(2) by (auto simp: sink_rotate_def split: option.splits)
  then have t: "sink_text s' = sink_cur s" by (simp add: sink_text_def)
  have "suffix (sink_cur s) (sink_text s)" by (simp add: sink_text_def suffixI)
  then show ?thesis using s' t assms(1) by (simp add: sink_inv_def)
next
  case False
  then have "r \<noteq> None" "s' = s \<or> s' = s\<lparr>sink_old := None\<rparr>"
    using assms(2) by (cases "flt SClose"; cases "flt SRemove"; cases "flt SRename"; cases "flt SReopen";
        auto simp: sink_rotate_def split: if_splits)+
  moreover have "suffix (sink_text (s\<lparr>sink_old := None\<rparr>)) (sink_text s)" by (simp add: sink_text_def suffixI)
  ultimately show ?thesis using assms(1) by (auto simp: sink_inv_def)
qed

lemma sink_write_spec:
  assumes "sink_inv s" "length b \<le> Limit" "sink_write flt b s = (s', r)"
  shows "length (sink_cur s') \<le> Limit \<and> (\<forall>c. sink_old s' = Some c \<longrightarrow> length c \<le> Limit) \<and>
    (r = None \<longrightarrow> sink_inv s' \<and> suffix (sink_text s') (sink_text s @ b) \<and> suffix b (sink_text s'))"
proof (cases "b = [] \<or> sink_size s + int (length b) \<le> int Limit")
  case True
  show ?thesis
  proof (cases "b = []")
    case True
    then have "s' = s" "r = None" using assms(3) by (simp_all add: sink_write_def)
    then show ?thesis using assms(1) True by (auto simp: sink_inv_def)
  next
    case nb: False
    then have le: "sink_size s + int (length b) \<le> int Limit" using True by simp
    show ?thesis
    proof (cases "flt SWrite")
      case None
      then have s': "s' = s\<lparr>sink_cur := sink_cur s @ b, sink_size := sink_size s + int (length b)\<rparr>"
        using assms(3) nb le by (simp add: sink_write_def)
      have "sink_text s' = sink_text s @ b" using s' by (simp add: sink_text_def)
      then show ?thesis using s' le assms(1) by (auto simp: sink_inv_def suffixI)
    next
      case (Some e)
      then have "s' = s" "r = Some e" using assms(3) nb le by (simp_all add: sink_write_def)
      then show ?thesis using assms(1) by (simp add: sink_inv_def)
    qed
  qed
next
  case False
  obtain s1 r1 where r1: "sink_rotate flt s = (s1, r1)" by fastforce
  note rot = sink_rotate_spec [OF assms(1) r1]
  show ?thesis
  proof (cases "r1 = None \<and> flt SWrite = None")
    case True
    then have s': "s' = s1\<lparr>sink_cur := sink_cur s1 @ b, sink_size := sink_size s1 + int (length b)\<rparr>" "r = None"
      using False assms(3) r1 by (auto simp: sink_write_def)
    have s1: "sink_inv s1" "sink_cur s1 = []" "sink_text s1 = sink_cur s" using rot True by auto
    have "sink_text s' = sink_text s1 @ b" using s' by (simp add: sink_text_def)
    moreover have "suffix (sink_text s1) (sink_text s)" using rot by simp
    then have "suffix (sink_text s1 @ b) (sink_text s @ b)" by (auto simp: suffix_def)
    ultimately show ?thesis using s' s1 assms(2) by (auto simp: sink_inv_def suffixI)
  next
    case F: False
    then consider e where "r1 = Some e" | e where "r1 = None" "flt SWrite = Some e" by fastforce
    then have "\<exists>e. sink_write flt b s = (s1, Some e)"
      by cases (use False r1 in \<open>simp_all add: sink_write_def\<close>)
    then have "s' = s1" "\<exists>e. r = Some e" using assms(3) by auto
    then show ?thesis using rot by auto
  qed
qed

lemma Sink_loop_spec:
  assumes "sink_inv s" "\<And>b re. (b, re) \<in> set rs \<Longrightarrow> length b \<le> Limit" "Sink_loop flt k rs s = (s', r)"
  shows "length (sink_cur s') \<le> Limit \<and> (\<forall>c. sink_old s' = Some c \<longrightarrow> length c \<le> Limit) \<and>
    (r = None \<longrightarrow> (\<exists>t. prefix t (concat (map fst rs)) \<and> suffix (sink_text s') (sink_text s @ t)))"
  using assms
proof (induction flt k rs s arbitrary: s' r rule: Sink_loop.induct)
  case (1 flt k s)
  then show ?case by (auto simp: sink_inv_def)
next
  case (2 flt k b re rs s)
  obtain s1 r1 where w: "sink_write (flt k) b s = (s1, r1)" by fastforce
  have lb: "length b \<le> Limit" using "2.prems"(2) by auto
  note sp = sink_write_spec [OF "2.prems"(1) lb w]
  show ?case
  proof (cases "r1 = None \<and> re = RNone")
    case True
    then have rec: "Sink_loop flt (Suc k) rs s1 = (s', r)" using "2.prems"(3) w by simp
    have s1: "sink_inv s1" "suffix (sink_text s1) (sink_text s @ b)" using sp True by auto
    from "2.IH" [OF w [symmetric] _ _ s1(1) _ rec] True "2.prems"(2)
    have IH: "length (sink_cur s') \<le> Limit \<and> (\<forall>c. sink_old s' = Some c \<longrightarrow> length c \<le> Limit) \<and>
      (r = None \<longrightarrow> (\<exists>t. prefix t (concat (map fst rs)) \<and> suffix (sink_text s') (sink_text s1 @ t)))" by auto
    have "\<exists>t. prefix t (concat (map fst ((b, re) # rs))) \<and> suffix (sink_text s') (sink_text s @ t)"
      if "prefix u (concat (map fst rs))" "suffix (sink_text s') (sink_text s1 @ u)" for u
    proof -
      have "suffix (sink_text s1 @ u) ((sink_text s @ b) @ u)" using s1(2) by (simp add: suffix_def)
      then have "suffix (sink_text s') (sink_text s @ b @ u)"
        using suffix_order.trans [OF that(2)] by simp
      with that(1) show ?thesis by (intro exI [of _ "b @ u"]) simp
    qed
    with IH show ?thesis by blast
  next
    case False
    then have s': "s' = s1" "r = None \<Longrightarrow> r1 = None"
      using "2.prems"(3) w by (auto split: option.splits read_err.splits)
    then show ?thesis using sp by (auto intro!: exI [of _ b])
  qed
qed



end
