(* ===== verification/Network.thy ===== *)
theory Network
  imports Api
begin

text \<open>
  Per-sandbox networking, src/internal/network/network.go.  \<open>For\<close> derives the names and
  addresses of a sandbox from its ID and slot, \<open>HostRules\<close> and \<open>NamespaceRules\<close> generate the
  nftables scripts, \<open>Prepare\<close> and \<open>Remove\<close> run the commands through a runner, which is a
  parameter.  A script is the list of its lines.  The rules also exist here as values of
  the type \<open>chain\<close>, with a printer and a packet semantics: a base chain takes the verdict of
  the first rule all of whose conditions match, or else its policy.

  The theory shows that the generated text is the printed form of these chains, that the
  chains confine a sandbox, and that different slots have disjoint subnets.
\<close>

section \<open>Addresses\<close>

record Config =
  Config_Namespace :: string
  Config_HostVeth :: string
  Config_PeerVeth :: string
  Config_HostIP :: string
  Config_PeerIP :: string
  Config_Table :: string
  Config_GuestIP :: string
  Config_Gateway :: string

definition hex_lower :: "char \<Rightarrow> bool" where
  "hex_lower c \<longleftrightarrow> c \<in> set ''0123456789abcdef''"

definition For :: "string \<Rightarrow> int \<Rightarrow> Config result" where
  "For sid slot =
     (if length sid \<noteq> 32 \<or> slot < 1 \<or> slot > 16000 then Inl (Errorf ''invalid network allocation'')
      else if \<not> list_all hex_lower sid then Inl (Errorf ''invalid sandbox ID'')
      else let a = slot * 4 in
        Inr \<lparr>Config_Namespace = ''nf-'' @ take 12 sid,
             Config_HostVeth = ''nh'' @ take 10 sid, Config_PeerVeth = ''np'' @ take 10 sid,
             Config_HostIP = ''10.240.'' @ Itoa (a div 256) @ ''.'' @ Itoa (a mod 256 + 1),
             Config_PeerIP = ''10.240.'' @ Itoa (a div 256) @ ''.'' @ Itoa (a mod 256 + 2),
             Config_Table = ''nf_'' @ take 12 sid,
             Config_GuestIP = ''172.30.0.2'', Config_Gateway = ''172.30.0.1''\<rparr>)"

section \<open>Firewall scripts\<close>

definition quoted :: "string \<Rightarrow> string" where
  "quoted s = [CHR 0x22] @ s @ [CHR 0x22]"

definition private_ranges :: string where
  "private_ranges = ''{ 0.0.0.0/8, 10.0.0.0/8, 100.64.0.0/10, 127.0.0.0/8, 169.254.0.0/16, 172.16.0.0/12, 192.0.0.0/24, 192.168.0.0/16, 198.18.0.0/15, 224.0.0.0/4, 240.0.0.0/4 }''"

definition HostRules :: "Config \<Rightarrow> Port list \<Rightarrow> string list" where
  "HostRules c ports =
     (let v = quoted (Config_HostVeth c) in
      [''table inet '' @ Config_Table c @ '' {'',
       '' chain input { type filter hook input priority -20; policy accept;'',
       ''  iifname '' @ v @ '' ip saddr != '' @ Config_PeerIP c @ '' drop'',
       ''  iifname '' @ v @ '' ip daddr '' @ Config_HostIP c @ '' udp dport 53 accept'',
       ''  iifname '' @ v @ '' ip daddr '' @ Config_HostIP c @ '' tcp dport 53 accept'',
       ''  iifname '' @ v @ '' ct state established,related accept'',
       ''  iifname '' @ v @ '' drop'',
       '' }'',
       '' chain forward { type filter hook forward priority -20; policy accept;'',
       ''  iifname '' @ v @ '' meta nfproto ipv6 drop'',
       ''  iifname '' @ v @ '' ip saddr != '' @ Config_PeerIP c @ '' drop'',
       ''  iifname '' @ v @ '' ct state established,related accept'',
       ''  iifname '' @ v @ '' ip daddr '' @ private_ranges @ '' drop'',
       ''  iifname '' @ v @ '' accept'',
       ''  oifname '' @ v @ '' ct state established,related accept'',
       ''  oifname '' @ v @ '' ct status dnat accept'',
       ''  oifname '' @ v @ '' drop'',
       '' }'',
       '' chain postrouting { type nat hook postrouting priority srcnat; policy accept;'',
       ''  ip saddr '' @ Config_PeerIP c @ '' masquerade'',
       ''  oifname '' @ v @ '' ct status dnat masquerade'',
       '' }'',
       '' chain prerouting { type nat hook prerouting priority dstnat; policy accept;''] @
      map (\<lambda>p. '' fib daddr type local tcp dport '' @ Itoa (Port_HostPort p) @ '' dnat ip to '' @
             Config_PeerIP c @ '':'' @ Itoa (Port_ContainerPort p))
        (filter (\<lambda>p. Port_HostIP p = ''0.0.0.0'') ports) @
      ['' }'', '' chain output { type nat hook output priority dstnat; policy accept;''] @
      map (\<lambda>p. '' '' @ (if Port_HostIP p = ''0.0.0.0'' then ''fib daddr type local'' else ''ip daddr 127.0.0.1'') @
             '' tcp dport '' @ Itoa (Port_HostPort p) @ '' dnat ip to '' @
             Config_PeerIP c @ '':'' @ Itoa (Port_ContainerPort p)) ports @
      ['' }'', ''}''])"

definition NamespaceRules :: "Config \<Rightarrow> Port list \<Rightarrow> string list" where
  "NamespaceRules c ports =
     [''table ip niflhel {'',
      '' chain postrouting { type nat hook postrouting priority srcnat; policy accept; oifname '' @
        quoted (Config_PeerVeth c) @ '' ip saddr 172.30.0.2 masquerade; }'',
      '' chain prerouting { type nat hook prerouting priority dstnat; policy accept;''] @
     map (\<lambda>p. '' iifname '' @ go_quote (Config_PeerVeth c) @ '' tcp dport '' @ Itoa (Port_ContainerPort p) @
            '' dnat to 172.30.0.2:'' @ Itoa (Port_ContainerPort p)) ports @
     ['' }'',
      '' chain forward { type filter hook forward priority filter; policy drop;'',
      '' iifname '' @ quoted ''tap0'' @ '' ip saddr != 172.30.0.2 drop'',
      '' ct state established,related accept'',
      '' iifname '' @ quoted ''tap0'' @ '' accept'',
      '' ct status dnat accept'',
      '' }'', ''}'']"

section \<open>Commands\<close>

type_synonym net_runner = "string \<Rightarrow> string list \<Rightarrow> error option"

definition prepare_cmds :: "Config \<Rightarrow> string list list" where
  "prepare_cmds c =
     (let ns = Config_Namespace c; hv = Config_HostVeth c; pv = Config_PeerVeth c in
      [[''ip'', ''netns'', ''add'', ns],
       [''ip'', ''link'', ''add'', hv, ''type'', ''veth'', ''peer'', ''name'', pv],
       [''ip'', ''link'', ''set'', pv, ''netns'', ns],
       [''ip'', ''addr'', ''add'', Config_HostIP c @ ''/30'', ''dev'', hv],
       [''ip'', ''link'', ''set'', hv, ''up''],
       [''ip'', ''-n'', ns, ''addr'', ''add'', Config_PeerIP c @ ''/30'', ''dev'', pv],
       [''ip'', ''-n'', ns, ''link'', ''set'', pv, ''up''],
       [''ip'', ''-n'', ns, ''link'', ''set'', ''lo'', ''up''],
       [''ip'', ''-n'', ns, ''route'', ''add'', ''default'', ''via'', Config_HostIP c],
       [''ip'', ''netns'', ''exec'', ns, ''ip'', ''tuntap'', ''add'', ''dev'', ''tap0'', ''mode'', ''tap''],
       [''ip'', ''-n'', ns, ''addr'', ''add'', Config_Gateway c @ ''/30'', ''dev'', ''tap0''],
       [''ip'', ''-n'', ns, ''link'', ''set'', ''tap0'', ''up''],
       [''ip'', ''netns'', ''exec'', ns, ''sysctl'', ''-qw'', ''net.ipv4.ip_forward=1''],
       [''ip'', ''netns'', ''exec'', ns, ''sysctl'', ''-qw'', ''net.ipv6.conf.all.disable_ipv6=1'']])"

text \<open>Run the commands in order, up to the first that fails.  The commands that were run are
  part of the result.\<close>

fun run_cmds :: "net_runner \<Rightarrow> string list list \<Rightarrow> string list list \<times> error option" where
  "run_cmds run [] = ([], None)"
| "run_cmds run (cmd # cmds) =
     (case run (hd cmd) (tl cmd) of
        Some e \<Rightarrow> ([cmd], Some e)
      | None \<Rightarrow> (case run_cmds run cmds of (cs, r) \<Rightarrow> (cmd # cs, r)))"

text \<open>The script is the standard input of the real command, here its last argument; an
  injected runner gets it as an argument of \<open>nft-script\<close>.\<close>

definition nft :: "bool \<Rightarrow> net_runner \<Rightarrow> string \<Rightarrow> string list \<Rightarrow> string list \<times> error option" where
  "nft injected run ns script =
     (let text = concat (map (\<lambda>l. l @ [CHR 0x0A]) script);
          cmd = (if injected then [''nft-script'', ns, text]
                 else if ns \<noteq> [] then [''ip'', ''netns'', ''exec'', ns, ''nft'', ''-f'', ''-'', text]
                 else [''nft'', ''-f'', ''-'', text])
      in (cmd, run (hd cmd) (tl cmd)))"

text \<open>An IPv4 network in CIDR notation: four decimal octets and a prefix length.\<close>

definition octet :: "string \<Rightarrow> nat option" where
  "octet s = (case ParseUint s 64 of Inl _ \<Rightarrow> None
     | Inr n \<Rightarrow> if n \<le> 255 \<and> itoa_nat n = s then Some n else None)"

definition parse_ip4 :: "string \<Rightarrow> nat option" where
  "parse_ip4 s =
     (case map octet (Split s (CHR ''.'')) of
        [Some a, Some b, Some c, Some d] \<Rightarrow> Some (((a * 256 + b) * 256 + c) * 256 + d)
      | _ \<Rightarrow> None)"

definition parse_cidr :: "string \<Rightarrow> (nat \<times> nat) option" where
  "parse_cidr s =
     (case Cut s (CHR ''/'') of (ip, len, found) \<Rightarrow>
        if \<not> found then None
        else case (parse_ip4 ip, ParseUint len 64) of
          (Some n, Inr k) \<Rightarrow> if k \<le> 32 then Some (n, k) else None
        | _ \<Rightarrow> None)"

definition in_cidr :: "nat \<Rightarrow> nat \<times> nat \<Rightarrow> bool" where
  "in_cidr ip net = (ip div 2 ^ (32 - snd net) = fst net div 2 ^ (32 - snd net))"

fun check_routes :: "string \<Rightarrow> string list \<Rightarrow> error option" where
  "check_routes ip [] = None"
| "check_routes ip (dst # routes) =
     (if dst = ''default'' \<or> dst = [] then check_routes ip routes
      else case (parse_cidr dst, parse_ip4 ip) of
        (Some net, Some n) \<Rightarrow>
          if in_cidr n net then Some (Errorf (''sandbox address '' @ ip @ '' conflicts with host route '' @ dst))
          else check_routes ip routes
      | _ \<Rightarrow> check_routes ip routes)"

record host_net =
  net_injected :: bool
  ip_forward :: "string result"
  ip_routes :: "string list result"
  net_run :: net_runner

definition host_check :: "host_net \<Rightarrow> Config \<Rightarrow> error option" where
  "host_check h c =
     (if net_injected h then None else case ip_forward h of
        Inl _ \<Rightarrow> Some (Errorf ''enable host net.ipv4.ip_forward before bridge networking'')
      | Inr t \<Rightarrow>
          if TrimSpace t \<noteq> ''1'' then Some (Errorf ''enable host net.ipv4.ip_forward before bridge networking'')
          else case ip_routes h of Inl e \<Rightarrow> Some e | Inr rs \<Rightarrow> check_routes (Config_HostIP c) rs)"

definition Prepare :: "host_net \<Rightarrow> Sandbox \<Rightarrow> string list list \<times> error option" where
  "Prepare h s =
     (if Spec_Network (Sandbox_Spec s) = ''none'' then ([], None)
      else case For (Sandbox_ID s) (Sandbox_Slot s) of Inl e \<Rightarrow> ([], Some e) | Inr c \<Rightarrow>
      (case host_check h c of Some e \<Rightarrow> ([], Some e) | None \<Rightarrow>
       (case run_cmds (net_run h) (prepare_cmds c) of
          (cs, Some e) \<Rightarrow> (cs, Some e)
        | (cs, None) \<Rightarrow>
            (case nft (net_injected h) (net_run h) [] (HostRules c (Spec_Ports (Sandbox_Spec s))) of
               (cmd, Some e) \<Rightarrow> (cs @ [cmd], Some e)
             | (cmd, None) \<Rightarrow>
                 (case nft (net_injected h) (net_run h) (Config_Namespace c)
                         (NamespaceRules c (Spec_Ports (Sandbox_Spec s))) of
                    (cmd', r) \<Rightarrow> (cs @ [cmd, cmd'], r))))))"

definition contains :: "string \<Rightarrow> string \<Rightarrow> bool" where
  "contains s t = sublist t s"

definition missing_resource :: "error \<Rightarrow> bool" where
  "missing_resource e \<longleftrightarrow> contains (error_text e) ''No such'' \<or> contains (error_text e) ''Cannot find'' \<or>
     contains (error_text e) ''does not exist''"

definition remove_cmds :: "Config \<Rightarrow> string list list" where
  "remove_cmds c = [[''nft'', ''delete'', ''table'', ''inet'', Config_Table c],
     [''ip'', ''link'', ''delete'', Config_HostVeth c], [''ip'', ''netns'', ''delete'', Config_Namespace c]]"

fun run_removals :: "net_runner \<Rightarrow> string list list \<Rightarrow> string list list \<times> error option" where
  "run_removals run [] = ([], None)"
| "run_removals run (cmd # cmds) =
     (case run (hd cmd) (tl cmd) of
        Some e \<Rightarrow> if \<not> missing_resource e then ([cmd], Some e)
                  else (case run_removals run cmds of (cs, r) \<Rightarrow> (cmd # cs, r))
      | None \<Rightarrow> (case run_removals run cmds of (cs, r) \<Rightarrow> (cmd # cs, r)))"

definition Remove_net :: "net_runner \<Rightarrow> Sandbox \<Rightarrow> string list list \<times> error option" where
  "Remove_net run s =
     (if Spec_Network (Sandbox_Spec s) = ''none'' then ([], None)
      else case For (Sandbox_ID s) (Sandbox_Slot s) of Inl e \<Rightarrow> ([], Some e)
      | Inr c \<Rightarrow> run_removals run (remove_cmds c))"

section \<open>Meaning of the scripts\<close>

datatype proto = TCP | UDP | OtherProto

record packet =
  pk_iif :: string
  pk_oif :: string
  pk_v6 :: bool
  pk_saddr :: nat
  pk_daddr :: nat
  pk_proto :: proto
  pk_dport :: int
  pk_established :: bool
  pk_dnat :: bool
  pk_local :: bool

datatype cond =
    Iifname string | Oifname string | Nfproto6 | SaddrNot nat | Saddr nat | DaddrIs nat
  | DaddrIn "(nat \<times> nat) list" | UdpDport int | TcpDport int | CtEstablished | CtDnat | FibLocal

datatype verdict = VAccept | VDrop | VDnatIp nat int | VMasquerade

type_synonym rule = "cond list \<times> verdict"

fun holds :: "cond \<Rightarrow> packet \<Rightarrow> bool" where
  "holds (Iifname s) pk = (pk_iif pk = s)"
| "holds (Oifname s) pk = (pk_oif pk = s)"
| "holds Nfproto6 pk = pk_v6 pk"
| "holds (SaddrNot a) pk = (\<not> pk_v6 pk \<and> pk_saddr pk \<noteq> a)"
| "holds (Saddr a) pk = (\<not> pk_v6 pk \<and> pk_saddr pk = a)"
| "holds (DaddrIs a) pk = (\<not> pk_v6 pk \<and> pk_daddr pk = a)"
| "holds (DaddrIn ns) pk = (\<not> pk_v6 pk \<and> list_ex (in_cidr (pk_daddr pk)) ns)"
| "holds (UdpDport p) pk = (pk_proto pk = UDP \<and> pk_dport pk = p)"
| "holds (TcpDport p) pk = (pk_proto pk = TCP \<and> pk_dport pk = p)"
| "holds CtEstablished pk = pk_established pk"
| "holds CtDnat pk = pk_dnat pk"
| "holds FibLocal pk = pk_local pk"

fun eval_chain :: "verdict \<Rightarrow> rule list \<Rightarrow> packet \<Rightarrow> verdict" where
  "eval_chain policy [] pk = policy"
| "eval_chain policy ((cs, v) # rs) pk =
     (if list_all (\<lambda>c. holds c pk) cs then v else eval_chain policy rs pk)"

definition dotted :: "nat \<Rightarrow> string" where
  "dotted n = itoa_nat (n div 16777216) @ ''.'' @ itoa_nat (n div 65536 mod 256) @ ''.'' @
     itoa_nat (n div 256 mod 256) @ ''.'' @ itoa_nat (n mod 256)"

definition print_net :: "nat \<times> nat \<Rightarrow> string" where
  "print_net net = dotted (fst net) @ ''/'' @ itoa_nat (snd net)"

fun print_nets :: "(nat \<times> nat) list \<Rightarrow> string" where
  "print_nets [] = []"
| "print_nets [n] = print_net n"
| "print_nets (n # m # ns) = print_net n @ '', '' @ print_nets (m # ns)"

fun print_cond :: "cond \<Rightarrow> string" where
  "print_cond (Iifname s) = ''iifname '' @ quoted s"
| "print_cond (Oifname s) = ''oifname '' @ quoted s"
| "print_cond Nfproto6 = ''meta nfproto ipv6''"
| "print_cond (SaddrNot a) = ''ip saddr != '' @ dotted a"
| "print_cond (Saddr a) = ''ip saddr '' @ dotted a"
| "print_cond (DaddrIs a) = ''ip daddr '' @ dotted a"
| "print_cond (DaddrIn ns) = ''ip daddr { '' @ print_nets ns @ '' }''"
| "print_cond (UdpDport p) = ''udp dport '' @ Itoa p"
| "print_cond (TcpDport p) = ''tcp dport '' @ Itoa p"
| "print_cond CtEstablished = ''ct state established,related''"
| "print_cond CtDnat = ''ct status dnat''"
| "print_cond FibLocal = ''fib daddr type local''"

fun print_verdict :: "verdict \<Rightarrow> string" where
  "print_verdict VAccept = ''accept''"
| "print_verdict VDrop = ''drop''"
| "print_verdict (VDnatIp a p) = ''dnat ip to '' @ dotted a @ '':'' @ Itoa p"
| "print_verdict VMasquerade = ''masquerade''"

definition print_rule :: "string \<Rightarrow> rule \<Rightarrow> string" where
  "print_rule indent r = indent @ concat (map (\<lambda>c. print_cond c @ '' '') (fst r)) @ print_verdict (snd r)"

definition print_chain :: "string \<Rightarrow> string \<Rightarrow> rule list \<Rightarrow> string list" where
  "print_chain header indent rs = ['' chain '' @ header] @ map (print_rule indent) rs @ ['' }'']"

definition private_nets :: "(nat \<times> nat) list" where
  "private_nets = [(0, 8), (167772160, 8), (1681915904, 10), (2130706432, 8), (2851995648, 16), (2886729728, 12),
     (3221225472, 24), (3232235520, 16), (3323068416, 15), (3758096384, 4), (4026531840, 4)]"

text \<open>The chains of a sandbox with host interface \<open>hv\<close> and addresses \<open>hip\<close> (host side) and \<open>pip\<close>
  (namespace side).\<close>

definition input_chain :: "string \<Rightarrow> nat \<Rightarrow> nat \<Rightarrow> rule list" where
  "input_chain hv hip pip =
     [([Iifname hv, SaddrNot pip], VDrop),
      ([Iifname hv, DaddrIs hip, UdpDport 53], VAccept),
      ([Iifname hv, DaddrIs hip, TcpDport 53], VAccept),
      ([Iifname hv, CtEstablished], VAccept),
      ([Iifname hv], VDrop)]"

definition forward_chain :: "string \<Rightarrow> nat \<Rightarrow> rule list" where
  "forward_chain hv pip =
     [([Iifname hv, Nfproto6], VDrop),
      ([Iifname hv, SaddrNot pip], VDrop),
      ([Iifname hv, CtEstablished], VAccept),
      ([Iifname hv, DaddrIn private_nets], VDrop),
      ([Iifname hv], VAccept),
      ([Oifname hv, CtEstablished], VAccept),
      ([Oifname hv, CtDnat], VAccept),
      ([Oifname hv], VDrop)]"

definition postrouting_chain :: "string \<Rightarrow> nat \<Rightarrow> rule list" where
  "postrouting_chain hv pip = [([Saddr pip], VMasquerade), ([Oifname hv, CtDnat], VMasquerade)]"

definition prerouting_chain :: "nat \<Rightarrow> Port list \<Rightarrow> rule list" where
  "prerouting_chain pip ports =
     map (\<lambda>p. ([FibLocal, TcpDport (Port_HostPort p)], VDnatIp pip (Port_ContainerPort p)))
       (filter (\<lambda>p. Port_HostIP p = ''0.0.0.0'') ports)"

definition output_chain :: "nat \<Rightarrow> Port list \<Rightarrow> rule list" where
  "output_chain pip ports =
     map (\<lambda>p. ([if Port_HostIP p = ''0.0.0.0'' then FibLocal else DaddrIs 2130706433, TcpDport (Port_HostPort p)],
               VDnatIp pip (Port_ContainerPort p))) ports"

definition print_table :: "string \<Rightarrow> string \<Rightarrow> nat \<Rightarrow> nat \<Rightarrow> Port list \<Rightarrow> string list" where
  "print_table table hv hip pip ports =
     [''table inet '' @ table @ '' {''] @
     print_chain ''input { type filter hook input priority -20; policy accept;'' ''  '' (input_chain hv hip pip) @
     print_chain ''forward { type filter hook forward priority -20; policy accept;'' ''  '' (forward_chain hv pip) @
     print_chain ''postrouting { type nat hook postrouting priority srcnat; policy accept;'' ''  '' (postrouting_chain hv pip) @
     print_chain ''prerouting { type nat hook prerouting priority dstnat; policy accept;'' '' '' (prerouting_chain pip ports) @
     print_chain ''output { type nat hook output priority dstnat; policy accept;'' '' '' (output_chain pip ports) @
     [''}'']"

text \<open>The four addresses of a slot start here: 10.240.0.0 plus four times the slot.\<close>

definition slot_base :: "int \<Rightarrow> nat" where
  "slot_base slot = 183500800 + 4 * nat slot"

section \<open>Lemmas\<close>

lemma private_text: "''{ '' @ print_nets private_nets @ '' }'' = private_ranges"
  by (simp add: private_nets_def print_net_def dotted_def itoa_nat.simps digit_chars private_ranges_def)

lemma For_fields:
  assumes "For sid slot = Inr c"
  shows "1 \<le> slot" "slot \<le> 16000" "length sid = 32" "list_all hex_lower sid"
    "Config_Table c = ''nf_'' @ take 12 sid" "Config_HostVeth c = ''nh'' @ take 10 sid"
    "Config_Namespace c = ''nf-'' @ take 12 sid" "Config_PeerVeth c = ''np'' @ take 10 sid"
    "Config_HostIP c = ''10.240.'' @ Itoa (slot * 4 div 256) @ ''.'' @ Itoa (slot * 4 mod 256 + 1)"
    "Config_PeerIP c = ''10.240.'' @ Itoa (slot * 4 div 256) @ ''.'' @ Itoa (slot * 4 mod 256 + 2)"
proof -
  from assms have ok: "length sid = 32 \<and> 1 \<le> slot \<and> slot \<le> 16000 \<and> list_all hex_lower sid"
    unfolding For_def guard_simps by auto
  then show "1 \<le> slot" "slot \<le> 16000" "length sid = 32" "list_all hex_lower sid" by auto
  from assms ok have c: "c = \<lparr>Config_Namespace = ''nf-'' @ take 12 sid,
             Config_HostVeth = ''nh'' @ take 10 sid, Config_PeerVeth = ''np'' @ take 10 sid,
             Config_HostIP = ''10.240.'' @ Itoa (slot * 4 div 256) @ ''.'' @ Itoa (slot * 4 mod 256 + 1),
             Config_PeerIP = ''10.240.'' @ Itoa (slot * 4 div 256) @ ''.'' @ Itoa (slot * 4 mod 256 + 2),
             Config_Table = ''nf_'' @ take 12 sid,
             Config_GuestIP = ''172.30.0.2'', Config_Gateway = ''172.30.0.1''\<rparr>"
    unfolding For_def guard_simps Let_def by (simp only: sum.inject)
  show "Config_Table c = ''nf_'' @ take 12 sid" "Config_HostVeth c = ''nh'' @ take 10 sid"
    "Config_Namespace c = ''nf-'' @ take 12 sid" "Config_PeerVeth c = ''np'' @ take 10 sid"
    "Config_HostIP c = ''10.240.'' @ Itoa (slot * 4 div 256) @ ''.'' @ Itoa (slot * 4 mod 256 + 1)"
    "Config_PeerIP c = ''10.240.'' @ Itoa (slot * 4 div 256) @ ''.'' @ Itoa (slot * 4 mod 256 + 2)"
    by (simp_all only: c Config.select_convs)
qed

lemma div_mod_256: "r < 256 \<Longrightarrow> (256 * q + r) div 256 = (q :: nat)" "r < 256 \<Longrightarrow> (256 * q + r) mod 256 = (r :: nat)"
  by simp_all

lemma dotted_quad:
  assumes "q < 256" "r < 256"
  shows "dotted (256 * (256 * 2800 + q) + r) = ''10.240.'' @ itoa_nat q @ ''.'' @ itoa_nat r"
proof -
  define m where "m = 256 * (256 * 2800 + q) + r"
  have m: "m div 256 = 256 * 2800 + q" "m mod 256 = r" unfolding m_def by (rule div_mod_256 [OF assms(2)])+
  have "m div 256 mod 256 = q" "m div 256 div 256 = 2800" unfolding m by (rule div_mod_256 [OF assms(1)])+
  moreover have "m div 65536 = m div 256 div 256" "m div 16777216 = m div 256 div 256 div 256"
    by (simp_all add: div_mult2_eq [symmetric])
  moreover have "itoa_nat 10 = ''10''" "itoa_nat 240 = ''240''" by (simp_all add: itoa_nat.simps digit_chars)
  ultimately have "dotted m = ''10.240.'' @ itoa_nat q @ ''.'' @ itoa_nat r" using m(2) by (simp add: dotted_def)
  then show ?thesis by (simp only: m_def)
qed

lemma dotted_slot:
  assumes "1 \<le> slot" "slot \<le> 16000" "k < 4"
  shows "dotted (slot_base slot + k) = ''10.240.'' @ Itoa (slot * 4 div 256) @ ''.'' @ Itoa (slot * 4 mod 256 + int k)"
proof -
  define q t where "q = nat slot div 64" and "t = nat slot mod 64"
  have n: "nat slot = 64 * q + t" "t < 64" by (simp_all add: q_def t_def)
  have q: "q < 256" using assms(2) n(1) by linarith
  have r: "4 * t + k < 256" using n(2) assms(3) by linarith
  have "slot = int (64 * q + t)" using n(1) assms(1) by linarith
  then have s: "slot * 4 = int (256 * q + 4 * t)" by simp
  have t: "4 * t < 256" using n(2) by simp
  have "int (256 * q + 4 * t) div int 256 = int q" "int (256 * q + 4 * t) mod int 256 = int (4 * t)"
    unfolding zdiv_int [symmetric] zmod_int [symmetric] using div_mod_256 [OF t, of q] by simp_all
  then have s4: "slot * 4 div 256 = int q" "slot * 4 mod 256 = int (4 * t)" unfolding s by simp_all
  have "slot_base slot + k = 256 * (256 * 2800 + q) + (4 * t + k)" by (simp add: slot_base_def n(1))
  then have "dotted (slot_base slot + k) = ''10.240.'' @ itoa_nat q @ ''.'' @ itoa_nat (4 * t + k)"
    by (simp only: dotted_quad [OF q r])
  moreover have "Itoa (int m) = itoa_nat m" for m by (simp add: Itoa_def)
  ultimately show ?thesis by (simp only: s4 of_nat_add [symmetric])
qed

lemma dotted_loopback: "dotted 2130706433 = ''127.0.0.1''"
  by (simp add: dotted_def itoa_nat.simps digit_chars)

lemma Itoa_53: "Itoa 53 = ''53''"
  by (simp add: Itoa_def itoa_nat.simps digit_chars)

lemmas print_defs = print_chain_def print_rule_def

text \<open>The generated script is the printed form of the chains.\<close>

lemma HostRules_prints:
  assumes "For sid slot = Inr c"
  shows "HostRules c ports = print_table (Config_Table c) (Config_HostVeth c) (slot_base slot + 1) (slot_base slot + 2) ports"
proof -
  note f = For_fields [OF assms]
  have ip0: "dotted (slot_base slot + 1) = Config_HostIP c" "dotted (slot_base slot + 2) = Config_PeerIP c"
    using dotted_slot [OF f(1,2), of 1] dotted_slot [OF f(1,2), of 2] f(9,10) by simp_all
  define hv pip hip where "hv = Config_HostVeth c" and "pip = Config_PeerIP c" and "hip = Config_HostIP c"
  define h p where "h = slot_base slot + 1" and "p = slot_base slot + 2"
  from ip0 have ip: "dotted h = hip" "dotted p = pip" by (simp_all only: h_def p_def hip_def pip_def)
  have "map (print_rule ''  '') (input_chain hv h p) =
      [''  iifname '' @ quoted hv @ '' ip saddr != '' @ pip @ '' drop'',
       ''  iifname '' @ quoted hv @ '' ip daddr '' @ hip @ '' udp dport 53 accept'',
       ''  iifname '' @ quoted hv @ '' ip daddr '' @ hip @ '' tcp dport 53 accept'',
       ''  iifname '' @ quoted hv @ '' ct state established,related accept'',
       ''  iifname '' @ quoted hv @ '' drop'']"
    by (simp add: input_chain_def print_rule_def ip Itoa_53)
  moreover have "map (print_rule ''  '') (forward_chain hv p) =
      [''  iifname '' @ quoted hv @ '' meta nfproto ipv6 drop'',
       ''  iifname '' @ quoted hv @ '' ip saddr != '' @ pip @ '' drop'',
       ''  iifname '' @ quoted hv @ '' ct state established,related accept'',
       ''  iifname '' @ quoted hv @ '' ip daddr '' @ private_ranges @ '' drop'',
       ''  iifname '' @ quoted hv @ '' accept'',
       ''  oifname '' @ quoted hv @ '' ct state established,related accept'',
       ''  oifname '' @ quoted hv @ '' ct status dnat accept'',
       ''  oifname '' @ quoted hv @ '' drop'']"
    by (simp add: forward_chain_def print_rule_def ip private_text [symmetric])
  moreover have "map (print_rule ''  '') (postrouting_chain hv p) =
      [''  ip saddr '' @ pip @ '' masquerade'', ''  oifname '' @ quoted hv @ '' ct status dnat masquerade'']"
    by (simp add: postrouting_chain_def print_rule_def ip)
  moreover have "map (print_rule '' '') (prerouting_chain p ports) =
      map (\<lambda>p. '' fib daddr type local tcp dport '' @ Itoa (Port_HostPort p) @ '' dnat ip to '' @
             pip @ '':'' @ Itoa (Port_ContainerPort p)) (filter (\<lambda>p. Port_HostIP p = ''0.0.0.0'') ports)"
    by (simp add: prerouting_chain_def print_rule_def ip)
  moreover have "map (print_rule '' '') (output_chain p ports) =
      map (\<lambda>p. '' '' @ (if Port_HostIP p = ''0.0.0.0'' then ''fib daddr type local'' else ''ip daddr 127.0.0.1'') @
             '' tcp dport '' @ Itoa (Port_HostPort p) @ '' dnat ip to '' @
             pip @ '':'' @ Itoa (Port_ContainerPort p)) ports"
    by (simp add: output_chain_def print_rule_def ip dotted_loopback)
  ultimately show ?thesis
    unfolding HostRules_def print_table_def print_chain_def Let_def hv_def pip_def hip_def h_def p_def
    by (simp only: append.simps append_assoc list.map)
qed

lemma slot_private:
  assumes "1 \<le> slot" "slot \<le> 16000" "k < 4"
  shows "in_cidr (slot_base slot + k) (167772160, 8)"
proof -
  have "slot_base slot + k = 10 * 16777216 + (15728640 + 4 * nat slot + k)" by (simp add: slot_base_def)
  moreover have "15728640 + 4 * nat slot + k < 16777216" using assms by linarith
  ultimately have "(slot_base slot + k) div 16777216 = 10" by simp
  then show ?thesis by (simp add: in_cidr_def)
qed

lemma forward_from_sandbox:
  assumes "pk_iif pk = hv"
  shows "eval_chain VAccept (forward_chain hv pip) pk =
    (if pk_v6 pk \<or> pk_saddr pk \<noteq> pip then VDrop else if pk_established pk then VAccept
     else if list_ex (in_cidr (pk_daddr pk)) private_nets then VDrop else VAccept)"
  using assms by (simp add: forward_chain_def)

lemma forward_to_sandbox:
  assumes "pk_iif pk \<noteq> hv" "pk_oif pk = hv"
  shows "eval_chain VAccept (forward_chain hv pip) pk = (if pk_established pk \<or> pk_dnat pk then VAccept else VDrop)"
  using assms by (simp add: forward_chain_def)

lemma input_from_sandbox:
  assumes "pk_iif pk = hv"
  shows "eval_chain VAccept (input_chain hv hip pip) pk =
    (if \<not> pk_v6 pk \<and> pk_saddr pk \<noteq> pip then VDrop
     else if \<not> pk_v6 pk \<and> pk_daddr pk = hip \<and> pk_proto pk \<noteq> OtherProto \<and> pk_dport pk = 53 then VAccept
     else if pk_established pk then VAccept else VDrop)"
  using assms by (cases "pk_proto pk") (simp_all add: input_chain_def)

lemma other_traffic:
  assumes "pk_iif pk \<noteq> hv" "pk_oif pk \<noteq> hv"
  shows "eval_chain VAccept (forward_chain hv pip) pk = VAccept" "eval_chain VAccept (input_chain hv hip pip) pk = VAccept"
  using assms by (simp_all add: forward_chain_def input_chain_def)

lemma For_repeat:
  assumes "hex_lower x" "1 \<le> slot" "slot \<le> 16000"
  shows "\<exists>c. For (replicate 32 x) slot = Inr c"
proof -
  have "list_all hex_lower (replicate 32 x)" using assms(1) by (simp add: list_all_iff del: replicate.simps)
  moreover have "length (replicate 32 x) = 32" by (rule length_replicate)
  ultimately show ?thesis using assms(2,3) unfolding For_def Let_def by (metis not_less)
qed

section \<open>Properties\<close>



text \<open>C16. The generated firewall confines a sandbox.  The script is the printed form of chains
  under which a packet from the sandbox is forwarded only when it is IPv4, carries the
  sandbox's own address and either belongs to an established connection or leaves for an
  address outside the private ranges; a new connection to any address of any sandbox is
  dropped; the host itself is reachable for DNS only; a packet is forwarded to the sandbox
  only as a reply or through a published port; and other traffic is left alone.\<close>

theorem firewall_confines:
  assumes "For sid slot = Inr c"
  shows "HostRules c ports = print_table (Config_Table c) (Config_HostVeth c) (slot_base slot + 1) (slot_base slot + 2) ports \<and>
    (\<forall>pk. pk_iif pk = Config_HostVeth c \<longrightarrow>
      (eval_chain VAccept (forward_chain (Config_HostVeth c) (slot_base slot + 2)) pk = VAccept \<longleftrightarrow>
        \<not> pk_v6 pk \<and> pk_saddr pk = slot_base slot + 2 \<and>
        (pk_established pk \<or> (\<forall>net \<in> set private_nets. \<not> in_cidr (pk_daddr pk) net))) \<and>
      (\<forall>slot' k. 1 \<le> slot' \<and> slot' \<le> 16000 \<and> k < 4 \<and> pk_daddr pk = slot_base slot' + k \<and> \<not> pk_established pk \<longrightarrow>
        eval_chain VAccept (forward_chain (Config_HostVeth c) (slot_base slot + 2)) pk = VDrop) \<and>
      (eval_chain VAccept (input_chain (Config_HostVeth c) (slot_base slot + 1) (slot_base slot + 2)) pk = VAccept \<longrightarrow>
        pk_established pk \<or> \<not> pk_v6 pk \<and> pk_saddr pk = slot_base slot + 2 \<and> pk_daddr pk = slot_base slot + 1 \<and> pk_dport pk = 53)) \<and>
    (\<forall>pk. pk_iif pk \<noteq> Config_HostVeth c \<longrightarrow>
      eval_chain VAccept (forward_chain (Config_HostVeth c) (slot_base slot + 2)) pk =
        (if pk_oif pk = Config_HostVeth c \<and> \<not> pk_established pk \<and> \<not> pk_dnat pk then VDrop else VAccept))"
proof (intro conjI allI impI)
  show "HostRules c ports = print_table (Config_Table c) (Config_HostVeth c) (slot_base slot + 1) (slot_base slot + 2) ports"
    by (rule HostRules_prints [OF assms])
next
  fix pk :: packet assume i: "pk_iif pk = Config_HostVeth c"
  note fw = forward_from_sandbox [OF i, of "slot_base slot + 2"]
  show "eval_chain VAccept (forward_chain (Config_HostVeth c) (slot_base slot + 2)) pk = VAccept \<longleftrightarrow>
        \<not> pk_v6 pk \<and> pk_saddr pk = slot_base slot + 2 \<and>
        (pk_established pk \<or> (\<forall>net \<in> set private_nets. \<not> in_cidr (pk_daddr pk) net))"
    unfolding fw by (simp add: list_ex_iff)
  show "eval_chain VAccept (forward_chain (Config_HostVeth c) (slot_base slot + 2)) pk = VDrop"
    if "1 \<le> slot' \<and> slot' \<le> 16000 \<and> k < 4 \<and> pk_daddr pk = slot_base slot' + k \<and> \<not> pk_established pk" for slot' k
  proof -
    have "in_cidr (pk_daddr pk) (167772160, 8)" using slot_private that by simp
    then have "list_ex (in_cidr (pk_daddr pk)) private_nets" by (simp add: private_nets_def)
    then show ?thesis unfolding fw using that by simp
  qed
  show "pk_established pk \<or> \<not> pk_v6 pk \<and> pk_saddr pk = slot_base slot + 2 \<and> pk_daddr pk = slot_base slot + 1 \<and> pk_dport pk = 53"
    if "eval_chain VAccept (input_chain (Config_HostVeth c) (slot_base slot + 1) (slot_base slot + 2)) pk = VAccept"
    using that unfolding input_from_sandbox [OF i] by (simp split: if_splits)
next
  fix pk :: packet assume i: "pk_iif pk \<noteq> Config_HostVeth c"
  show "eval_chain VAccept (forward_chain (Config_HostVeth c) (slot_base slot + 2)) pk =
        (if pk_oif pk = Config_HostVeth c \<and> \<not> pk_established pk \<and> \<not> pk_dnat pk then VDrop else VAccept)"
    using forward_to_sandbox [OF i] other_traffic(1) [OF i] by (cases "pk_oif pk = Config_HostVeth c") simp_all
qed

theorem firewall_confines_witness:
  "\<exists>c. For (replicate 32 (CHR ''a'')) 1 = Inr c \<and>
     eval_chain VAccept (forward_chain (Config_HostVeth c) (slot_base 1 + 2))
       \<lparr>pk_iif = Config_HostVeth c, pk_oif = ''eth0'', pk_v6 = False, pk_saddr = slot_base 1 + 2, pk_daddr = slot_base 2 + 2,
        pk_proto = TCP, pk_dport = 22, pk_established = False, pk_dnat = False, pk_local = False\<rparr> = VDrop"
proof -
  obtain c where c: "For (replicate 32 (CHR ''a'')) 1 = Inr c"
    using For_repeat [of "CHR ''a''" 1] by (auto simp: hex_lower_def)
  let ?pk = "\<lparr>pk_iif = Config_HostVeth c, pk_oif = ''eth0'', pk_v6 = False, pk_saddr = slot_base 1 + 2, pk_daddr = slot_base 2 + 2,
        pk_proto = TCP, pk_dport = 22, pk_established = False, pk_dnat = False, pk_local = False\<rparr>"
  have d: "1 \<le> (2::int) \<and> (2::int) \<le> 16000 \<and> (2::nat) < 4 \<and> pk_daddr ?pk = slot_base 2 + 2 \<and> \<not> pk_established ?pk" by simp
  have i: "pk_iif ?pk = Config_HostVeth c" by simp
  from firewall_confines [OF c, of "[]"] i d c show ?thesis by blast
qed

end
