(* ===== verification/Dns.thy ===== *)
theory Dns
  imports Prelude Complex_Main
begin

text \<open>
  Admission control of the DNS forwarder, src/internal/network/dns.go: the token bucket and the
  two work semaphores.  Times are nanoseconds; the zero time is \<open>None\<close>.  The bucket's float64
  arithmetic is exact rational arithmetic here.  A buffered channel of empty structs is its
  fill count.  Admission objects, one per running forwarder, share the process-wide bucket
  and semaphore; the steps of the concurrent forwarders interleave.

  The theory shows the rate a bucket enforces, that it recovers, and that the numbers of
  queries in flight stay within the per-sandbox and process-wide limits.
\<close>

section \<open>Token bucket\<close>

record tokenBucket =
  tb_rate :: rat
  tb_burst :: rat
  tb_tokens :: rat
  tb_last :: "int option"

definition perSandboxDNSRate :: rat where "perSandboxDNSRate = 256"
definition perSandboxDNSBurst :: int where "perSandboxDNSBurst = 512"
definition perSandboxDNSConcurrent :: nat where "perSandboxDNSConcurrent = 64"
definition globalDNSRate :: rat where "globalDNSRate = 4096"
definition globalDNSBurst :: int where "globalDNSBurst = 8192"
definition globalDNSConcurrent :: nat where "globalDNSConcurrent = 256"

definition newTokenBucket :: "rat \<Rightarrow> int \<Rightarrow> tokenBucket" where
  "newTokenBucket rate burst = \<lparr>tb_rate = rate, tb_burst = of_int burst, tb_tokens = of_int burst, tb_last = None\<rparr>"

definition seconds :: "int \<Rightarrow> rat" where
  "seconds ns = of_int ns / 1000000000"

definition refill :: "int \<Rightarrow> tokenBucket \<Rightarrow> tokenBucket" where
  "refill now b =
     (case tb_last b of
        None \<Rightarrow> b\<lparr>tb_last := Some now\<rparr>
      | Some l \<Rightarrow>
          if now > l then
            (let t = tb_tokens b + seconds (now - l) * tb_rate b
             in b\<lparr>tb_tokens := (if t > tb_burst b then tb_burst b else t), tb_last := Some now\<rparr>)
          else b)"

definition allow :: "int \<Rightarrow> tokenBucket \<Rightarrow> tokenBucket \<times> bool" where
  "allow now b =
     (if tb_rate b \<le> 0 \<or> tb_burst b < 1 then (b, False)
      else let b = refill now b in
        if tb_tokens b < 1 then (b, False) else (b\<lparr>tb_tokens := tb_tokens b - 1\<rparr>, True))"

fun allow_all :: "int list \<Rightarrow> tokenBucket \<Rightarrow> tokenBucket \<times> nat" where
  "allow_all [] b = (b, 0)"
| "allow_all (t # ts) b =
     (case allow t b of (b, ok) \<Rightarrow> (case allow_all ts b of (b, n) \<Rightarrow> (b, (if ok then Suc n else n))))"

section \<open>Admission\<close>

definition newDNSAdmission :: "tokenBucket \<times> nat" where
  "newDNSAdmission = (newTokenBucket perSandboxDNSRate perSandboxDNSBurst, 0)"

definition processDNSAdmission :: "tokenBucket \<times> nat" where
  "processDNSAdmission = (newTokenBucket globalDNSRate globalDNSBurst, 0)"

definition acquire :: "int \<Rightarrow> tokenBucket \<times> nat \<Rightarrow> tokenBucket \<times> nat \<Rightarrow> ((tokenBucket \<times> nat) \<times> (tokenBucket \<times> nat)) \<times> bool" where
  "acquire now l g =
     (case allow now (fst l) of
        (lb, False) \<Rightarrow> (((lb, snd l), g), False)
      | (lb, True) \<Rightarrow>
          (case allow now (fst g) of
             (gb, False) \<Rightarrow> (((lb, snd l), (gb, snd g)), False)
           | (gb, True) \<Rightarrow>
               if \<not> snd l < perSandboxDNSConcurrent then (((lb, snd l), (gb, snd g)), False)
               else if snd g < globalDNSConcurrent then (((lb, snd l + 1), (gb, snd g + 1)), True)
               else (((lb, snd l), (gb, snd g)), False)))"

definition release :: "tokenBucket \<times> nat \<Rightarrow> tokenBucket \<times> nat \<Rightarrow> (tokenBucket \<times> nat) \<times> (tokenBucket \<times> nat)" where
  "release l g = ((fst l, snd l - 1), (fst g, snd g - 1))"

record dns_state =
  dns_local :: "(tokenBucket \<times> nat) list"
  dns_global :: "tokenBucket \<times> nat"
  dns_held :: "nat list"

text \<open>The interleaved steps: a forwarder starts, a query asks for admission at some time, an
  admitted query (recorded in \<open>dns_held\<close>) finishes and calls its release function once.\<close>

inductive dns_step :: "dns_state \<Rightarrow> dns_state \<Rightarrow> bool" where
  new: "dns_step s (s\<lparr>dns_local := dns_local s @ [newDNSAdmission]\<rparr>)"
| admit: "i < length (dns_local s) \<Longrightarrow> acquire now (dns_local s ! i) (dns_global s) = ((l, g), True) \<Longrightarrow>
    dns_step s (s\<lparr>dns_local := (dns_local s)[i := l], dns_global := g, dns_held := i # dns_held s\<rparr>)"
| refuse: "i < length (dns_local s) \<Longrightarrow> acquire now (dns_local s ! i) (dns_global s) = ((l, g), False) \<Longrightarrow>
    dns_step s (s\<lparr>dns_local := (dns_local s)[i := l], dns_global := g\<rparr>)"
| finish: "i \<in> set (dns_held s) \<Longrightarrow> release (dns_local s ! i) (dns_global s) = (l, g) \<Longrightarrow>
    dns_step s (s\<lparr>dns_local := (dns_local s)[i := l], dns_global := g, dns_held := remove1 i (dns_held s)\<rparr>)"

definition dns_init :: dns_state where
  "dns_init = \<lparr>dns_local = [], dns_global = processDNSAdmission, dns_held = []\<rparr>"

inductive dns_reachable :: "dns_state \<Rightarrow> bool" where
  init: "dns_reachable dns_init"
| step: "dns_reachable s \<Longrightarrow> dns_step s s' \<Longrightarrow> dns_reachable s'"

inductive_cases dns_step_cases: "dns_step s s'"

section \<open>Lemmas\<close>

definition bucket_inv :: "tokenBucket \<Rightarrow> bool" where
  "bucket_inv b \<longleftrightarrow> 0 < tb_rate b \<and> 1 \<le> tb_burst b \<and> 0 \<le> tb_tokens b \<and> tb_tokens b \<le> tb_burst b"

lemma seconds_simps [simp]: "seconds 0 = 0" "seconds a \<le> seconds b \<longleftrightarrow> a \<le> b" "0 < seconds a \<longleftrightarrow> 0 < a"
  by (simp_all add: seconds_def divide_le_cancel)

lemma seconds_diff: "seconds (a - b) + seconds (b - c) = seconds (a - c)"
  by (simp add: seconds_def add_divide_distrib [symmetric])

text \<open>The potential argument: tokens spent plus tokens left never exceed what was there plus
  what the elapsed time refills.\<close>

lemma allow_potential:
  assumes "bucket_inv b" "tb_last b = Some l" "allow t b = (b', ok)"
  shows "bucket_inv b'" "tb_last b' = Some (max l t)" "tb_rate b' = tb_rate b" "tb_burst b' = tb_burst b"
    "tb_tokens b' + (if ok then 1 else 0) \<le> tb_tokens b + tb_rate b * seconds (max l t - l)"
proof -
  define r where "r = refill t b"
  have r: "tb_rate r = tb_rate b" "tb_burst r = tb_burst b" "tb_last r = Some (max l t)"
    using assms(2) by (simp_all add: r_def refill_def Let_def max_def)
  have s: "0 \<le> seconds (max l t - l) * tb_rate b"
    using assms(1) by (auto simp: bucket_inv_def seconds_def intro!: mult_nonneg_nonneg)
  have t: "tb_tokens r \<le> tb_tokens b + tb_rate b * seconds (max l t - l)" "0 \<le> tb_tokens r" "tb_tokens r \<le> tb_burst b"
    using assms(1,2) s by (auto simp: r_def refill_def Let_def bucket_inv_def max_def mult.commute)
  have a: "allow t b = (if tb_tokens r < 1 then (r, False) else (r\<lparr>tb_tokens := tb_tokens r - 1\<rparr>, True))"
    using assms(1) by (simp add: allow_def bucket_inv_def r_def Let_def)
  show "bucket_inv b'" "tb_last b' = Some (max l t)" "tb_rate b' = tb_rate b" "tb_burst b' = tb_burst b"
    "tb_tokens b' + (if ok then 1 else 0) \<le> tb_tokens b + tb_rate b * seconds (max l t - l)"
    using assms(1,3) r t unfolding a by (auto simp: bucket_inv_def split: if_splits)
qed

lemma allow_all_potential:
  assumes "bucket_inv b" "tb_last b = Some l" "allow_all ts b = (b', n)"
  shows "of_nat n + tb_tokens b' \<le> tb_tokens b + tb_rate b * seconds (foldl max l ts - l) \<and> bucket_inv b'"
  using assms
proof (induction ts arbitrary: b l n)
  case (Cons t ts)
  obtain b1 ok where a: "allow t b = (b1, ok)" by fastforce
  obtain m where m: "allow_all ts b1 = (b', m)" "n = (if ok then Suc m else m)"
    using Cons.prems(3) a by (auto split: prod.splits)
  note p = allow_potential [OF Cons.prems(1,2) a]
  have "of_nat m + tb_tokens b' \<le> tb_tokens b1 + tb_rate b1 * seconds (foldl max (max l t) ts - max l t) \<and> bucket_inv b'"
    by (rule Cons.IH [OF p(1,2) m(1)])
  moreover have "tb_rate b * seconds (foldl max (max l t) ts - max l t) + tb_rate b * seconds (max l t - l) =
      tb_rate b * seconds (foldl max (max l t) ts - l)"
    by (simp only: distrib_left [symmetric] seconds_diff)
  ultimately show ?case using p(3,5) m(2) by (auto split: if_splits)
qed simp

lemma acquire_counts:
  assumes "acquire now l g = ((l', g'), ok)"
  shows "if ok then snd l < 64 \<and> snd g < 256 \<and> snd l' = snd l + 1 \<and> snd g' = snd g + 1 else snd l' = snd l \<and> snd g' = snd g"
  using assms
  by (auto simp: acquire_def perSandboxDNSConcurrent_def globalDNSConcurrent_def split: prod.splits bool.splits if_splits)

text \<open>The count of a semaphore is the number of its slots held by queries.\<close>

definition dns_inv :: "dns_state \<Rightarrow> bool" where
  "dns_inv s \<longleftrightarrow>
     (\<forall>i < length (dns_local s). snd (dns_local s ! i) = count_list (dns_held s) i \<and> snd (dns_local s ! i) \<le> 64) \<and>
     (\<forall>i \<in> set (dns_held s). i < length (dns_local s)) \<and>
     snd (dns_global s) = length (dns_held s) \<and> snd (dns_global s) \<le> 256"

lemma count_list_remove1: "count_list (remove1 x xs) y = (if x = y then count_list xs y - 1 else count_list xs y)"
  by (induction xs) (auto simp: count_list_0_iff gr0_conv_Suc)

lemma dns_step_inv:
  assumes "dns_step s s'" "dns_inv s"
  shows "dns_inv s'"
  using assms(1)
proof cases
  case new
  have "i \<notin> set (dns_held s)" if "i = length (dns_local s)" for i using assms(2) that by (auto simp: dns_inv_def)
  then have "count_list (dns_held s) (length (dns_local s)) = 0" by (simp add: count_list_0_iff)
  then show ?thesis using assms(2) new by (auto simp: dns_inv_def newDNSAdmission_def nth_append less_Suc_eq)
next
  case (admit i now l g)
  from acquire_counts [OF admit(3)] have "snd (dns_local s ! i) < 64" "snd (dns_global s) < 256"
    "snd l = snd (dns_local s ! i) + 1" "snd g = snd (dns_global s) + 1" by simp_all
  then show ?thesis using assms(2) admit(1,2) by (auto simp: dns_inv_def nth_list_update)
next
  case (refuse i now l g)
  from acquire_counts [OF refuse(3)] have "snd l = snd (dns_local s ! i)" "snd g = snd (dns_global s)" by simp_all
  then show ?thesis using assms(2) refuse(1,2) by (auto simp: dns_inv_def nth_list_update)
next
  case (finish i l g)
  then have lg: "snd l = snd (dns_local s ! i) - 1" "snd g = snd (dns_global s) - 1" by (auto simp: release_def)
  have "length (remove1 i (dns_held s)) = length (dns_held s) - 1" using finish(2) by (simp add: length_remove1)
  then show ?thesis using assms(2) finish(1) lg
    by (auto simp: dns_inv_def nth_list_update count_list_remove1 dest: set_remove1_subset [THEN subsetD])
qed

lemma dns_reachable_inv: "dns_reachable s \<Longrightarrow> dns_inv s"
proof (induction rule: dns_reachable.induct)
  case init
  show ?case by (simp add: dns_inv_def dns_init_def processDNSAdmission_def)
next
  case (step s s')
  then show ?case by (blast intro: dns_step_inv)
qed

section \<open>Properties\<close>





end
