(* ===== verification/Fsutil.thy ===== *)
theory Fsutil
  imports Api
begin

text \<open>
  File helpers, src/internal/fsutil/files.go: atomic replacement of a file, bounded reads, the
  complexity check of JSON documents, digest syntax and path confinement.  Files are a map
  from paths to contents; system calls fail as a fault function says; the token stream of
  \<open>encoding/json\<close> is the list of its tokens and how it ends; \<open>Lstat\<close> is a parameter.

  The theory shows that a crash at any point of \<open>Atomic\<close> leaves the old or the new contents,
  which documents the complexity check admits, and that \<open>Within\<close> confines paths.
\<close>

section \<open>Atomic replacement\<close>

datatype atomic_site = AMkdir | ACreateTemp | AChmod | AWrite | ASync | AClose | ARename | AOpenDir | ASyncDir

type_synonym files = "string \<Rightarrow> string option"

text \<open>\<open>Atomic\<close> yields every state of the files it passes through, the last one being the state in
  which it returns.  \<open>tmp\<close> is the name that \<open>os.CreateTemp\<close> chose, \<open>part\<close> what a failed write
  left behind.\<close>

definition Atomic :: "(atomic_site \<Rightarrow> error option) \<Rightarrow> string \<Rightarrow> string \<Rightarrow> files \<Rightarrow> string \<Rightarrow> string \<Rightarrow> files list \<times> error option" where
  "Atomic flt tmp part fs path data =
     (case flt AMkdir of Some e \<Rightarrow> ([fs], Some e) | None \<Rightarrow>
      (case flt ACreateTemp of Some e \<Rightarrow> ([fs], Some e) | None \<Rightarrow>
       (let fs1 = fs(tmp \<mapsto> []);
            fs2 = (if flt AChmod \<noteq> None then fs1 else if flt AWrite \<noteq> None then fs1(tmp \<mapsto> part) else fs1(tmp \<mapsto> data));
            e1 = (case flt AChmod of Some e \<Rightarrow> Some e | None \<Rightarrow> flt AWrite);
            e2 = (case e1 of Some e \<Rightarrow> Some e | None \<Rightarrow> flt ASync);
            e3 = (case e2 of Some e \<Rightarrow> Some e | None \<Rightarrow> flt AClose)
        in case e3 of Some e \<Rightarrow> ([fs, fs1, fs2, fs2(tmp := None)], Some e) | None \<Rightarrow>
           (case flt ARename of Some e \<Rightarrow> ([fs, fs1, fs2, fs2(tmp := None)], Some e) | None \<Rightarrow>
            (let fs3 = fs2(path := fs2 tmp, tmp := None) in
             case flt AOpenDir of Some e \<Rightarrow> ([fs, fs1, fs2, fs3], Some e) | None \<Rightarrow>
             ([fs, fs1, fs2, fs3], flt ASyncDir))))))"

section \<open>Bounded reads\<close>

record file_info =
  fi_regular :: bool
  fi_size :: int
  fi_data :: "string result"

text \<open>\<open>fi_data\<close> is what reading yields, which may exceed the size that \<open>Stat\<close> reported.\<close>

definition LimitReader :: "int \<Rightarrow> string \<Rightarrow> string" where
  "LimitReader n s = (if n \<le> 0 then [] else take (nat n) s)"

definition ReadFileLimit :: "file_info result result \<Rightarrow> int \<Rightarrow> string result" where
  "ReadFileLimit f mx =
     (if mx < 0 then Inl (Errorf ''invalid file size limit'')
      else case f of Inl e \<Rightarrow> Inl e | Inr (Inl e) \<Rightarrow> Inl e
      | Inr (Inr i) \<Rightarrow>
          if \<not> fi_regular i then Inl (Errorf ''metadata must be a regular file'')
          else if fi_size i > mx then Inl (Errorf ''metadata size limit exceeded'')
          else case fi_data i of Inl e \<Rightarrow> Inl e
          | Inr s \<Rightarrow> (let b = LimitReader (wrap64 (mx + 1)) s in
              if int (length b) > mx then Inl (Errorf ''metadata size limit exceeded'') else Inr b))"

section \<open>JSON complexity\<close>

datatype json_token = JOpen | JClose | JString string | JOther

datatype json_end = JEOF | JErr error

record json_limits =
  jl_tokens :: int
  jl_depth :: int
  jl_bytes :: int

fun json_loop :: "json_limits \<Rightarrow> json_end \<Rightarrow> json_token list \<Rightarrow> int \<Rightarrow> int \<Rightarrow> int \<Rightarrow> bool \<Rightarrow> bool \<Rightarrow> error option" where
  "json_loop lim fin [] tokens depth bytes started complete =
     (case fin of
        JEOF \<Rightarrow> if \<not> started \<or> \<not> complete \<or> depth \<noteq> 0 then Some (Errorf ''invalid JSON value'') else None
      | JErr e \<Rightarrow> Some e)"
| "json_loop lim fin (t # ts) tokens depth bytes started complete =
     (if complete then Some (Errorf ''multiple JSON values'')
      else if tokens + 1 > jl_tokens lim then Some (Errorf ''JSON token limit exceeded'')
      else case t of
        JString s \<Rightarrow>
          if int (length s) > jl_bytes lim - bytes then Some (Errorf ''JSON string limit exceeded'')
          else json_loop lim fin ts (tokens + 1) depth (bytes + int (length s)) True (depth = 0)
      | JOpen \<Rightarrow>
          if depth + 1 > jl_depth lim then Some (Errorf ''JSON depth limit exceeded'')
          else json_loop lim fin ts (tokens + 1) (depth + 1) bytes True complete
      | JClose \<Rightarrow>
          if depth - 1 < 0 then Some (Errorf ''invalid JSON nesting'')
          else json_loop lim fin ts (tokens + 1) (depth - 1) bytes True (depth - 1 = 0)
      | JOther \<Rightarrow> json_loop lim fin ts (tokens + 1) depth bytes True (depth = 0))"

definition ValidateJSONComplexity :: "json_token list \<Rightarrow> json_end \<Rightarrow> json_limits \<Rightarrow> error option" where
  "ValidateJSONComplexity ts fin lim =
     (if jl_tokens lim \<le> 0 \<or> jl_depth lim \<le> 0 \<or> jl_bytes lim < 0 then Some (Errorf ''invalid JSON complexity limit'')
      else json_loop lim fin ts 0 0 0 False False)"

section \<open>Digests\<close>

definition hex_any :: "char \<Rightarrow> bool" where
  "hex_any c \<longleftrightarrow> c \<in> set ''0123456789abcdefABCDEF''"

definition HexDigest :: "string \<Rightarrow> string result" where
  "HexDigest s =
     (if length s \<noteq> 71 \<or> \<not> HasPrefix s ''sha256:'' then Inl (Errorf ''invalid sha256 digest'')
      else if \<not> list_all hex_any (drop 7 s) then Inl (ErrSys ''encoding/hex: invalid byte'')
      else Inr (drop 7 s))"

section \<open>Path confinement\<close>

definition Dir :: "string \<Rightarrow> string" where
  "Dir s = Clean (rev (dropWhile (\<lambda>c. c \<noteq> CHR ''/'') (rev s)))"

definition lstat_verdict :: "bool result \<Rightarrow> error option" where
  "lstat_verdict r =
     (case r of
        Inr symlink \<Rightarrow> if symlink then Some (Errorf ''symlink in parent path'') else None
      | Inl e \<Rightarrow> if e \<noteq> ErrNotExist then Some e else None)"

partial_function (option) parent_loop :: "(string \<Rightarrow> bool result) \<Rightarrow> string \<Rightarrow> string \<Rightarrow> error option option" where
  "parent_loop lstat root p =
     (if p \<noteq> root \<and> p \<noteq> Dir p then
        (case lstat_verdict (lstat p) of
           Some e \<Rightarrow> Some (Some e)
         | None \<Rightarrow> parent_loop lstat root (Dir p))
      else Some None)"

definition Within :: "(string \<Rightarrow> bool result) \<Rightarrow> string \<Rightarrow> string \<Rightarrow> string result option" where
  "Within lstat root name =
     (if CHR 0x00 \<in> set name then Some (Inl (Errorf ''NUL in path''))
      else let c = Clean name in
        if IsAbs c \<or> c = ''..'' \<or> HasPrefix c ''../'' then Some (Inl (Errorf ''path escapes root''))
        else let full = path_Join [root, c] in
          map_option (\<lambda>r. case r of Some e \<Rightarrow> Inl e | None \<Rightarrow> Inr full) (parent_loop lstat root (Dir full)))"

section \<open>Reference definitions\<close>

fun weight :: "json_token \<Rightarrow> int" where
  "weight JOpen = 1" | "weight JClose = -1" | "weight _ = 0"

fun bytes_of :: "json_token \<Rightarrow> int" where
  "bytes_of (JString s) = int (length s)" | "bytes_of _ = 0"

definition nesting :: "json_token list \<Rightarrow> int" where
  "nesting ts = sum_list (map weight ts)"

definition string_bytes :: "json_token list \<Rightarrow> int" where
  "string_bytes ts = sum_list (map bytes_of ts)"

text \<open>One JSON value: the nesting returns to zero at the last token and not before.\<close>

definition one_value :: "int \<Rightarrow> json_token list \<Rightarrow> bool" where
  "one_value d ts \<longleftrightarrow> ts \<noteq> [] \<and> d + nesting ts = 0 \<and> (\<forall>p. strict_prefix p ts \<and> p \<noteq> [] \<longrightarrow> 0 < d + nesting p)"

definition abs_path :: "string list \<Rightarrow> string" where
  "abs_path es = CHR ''/'' # join_with (CHR ''/'') es"

section \<open>Lemmas\<close>

lemma nesting_simps [simp]:
  "nesting [] = 0" "nesting (t # ts) = weight t + nesting ts" "nesting (xs @ ys) = nesting xs + nesting ys"
  by (simp_all add: nesting_def)

lemma string_bytes_simps [simp]:
  "string_bytes [] = 0" "string_bytes (t # ts) = bytes_of t + string_bytes ts"
  by (simp_all add: string_bytes_def)

lemma string_bytes_nonneg [simp]: "0 \<le> string_bytes ts"
proof (induction ts)
  case (Cons t ts)
  then show ?case by (cases t) auto
qed simp

lemma strict_prefix_Cons_all:
  "(\<forall>p. strict_prefix p (t # ts) \<and> p \<noteq> [] \<longrightarrow> P p) \<longleftrightarrow> (ts \<noteq> [] \<longrightarrow> P [t]) \<and> (\<forall>p. strict_prefix p ts \<and> p \<noteq> [] \<longrightarrow> P (t # p))"
  by (auto simp: strict_prefix_def prefix_Cons)

lemma prefix_Cons_all:
  "(\<forall>p. prefix p (t # ts) \<and> p \<noteq> [] \<longrightarrow> P p) \<longleftrightarrow> P [t] \<and> (\<forall>p. prefix p ts \<and> p \<noteq> [] \<longrightarrow> P (t # p))"
  by (auto simp: prefix_Cons)

lemma one_value_Cons:
  "one_value d (t # ts) \<longleftrightarrow>
     (if ts = [] then d + weight t = 0 else 0 < d + weight t \<and> one_value (d + weight t) ts)"
  unfolding one_value_def strict_prefix_Cons_all by (auto simp: add.assoc)

text \<open>The loop for a prefix that has been read, by induction on the tokens that remain.\<close>

lemma json_loop_complete:
  "json_loop lim fin ts n 0 b True True = None \<longleftrightarrow> ts = [] \<and> fin = JEOF"
  by (cases ts; cases fin) auto

lemma json_loop_None:
  assumes "0 \<le> d" "d \<le> jl_depth lim" "started \<or> d = 0" "b \<le> jl_bytes lim" "started \<longrightarrow> d \<noteq> 0"
  shows "json_loop lim fin ts n d b started False = None \<longleftrightarrow>
     fin = JEOF \<and> one_value d ts \<and> n + int (length ts) \<le> jl_tokens lim \<and> b + string_bytes ts \<le> jl_bytes lim
     \<and> (\<forall>p. prefix p ts \<and> p \<noteq> [] \<longrightarrow> d + nesting p \<le> jl_depth lim)"
  using assms
proof (induction ts arbitrary: n d b started)
  case Nil
  then show ?case by (cases fin) (auto simp: one_value_def)
next
  case (Cons t ts)
  show ?case
  proof (cases t)
    case JOpen
    then show ?thesis
      using Cons.prems Cons.IH [of "d + 1" True b "n + 1"]
      unfolding prefix_Cons_all one_value_Cons by (auto simp: one_value_def add.assoc)
  next
    case JClose
    then show ?thesis
      using Cons.prems Cons.IH [of "d - 1" True b "n + 1"] json_loop_complete [of lim fin ts "n + 1" b]
      unfolding prefix_Cons_all one_value_Cons by (cases "d = 1") (auto simp: one_value_def add.assoc algebra_simps)
  next
    case (JString s)
    show ?thesis
    proof (cases "jl_bytes lim < b + int (length s)")
      case True
      then have "jl_bytes lim < b + (int (length s) + string_bytes ts)"
        using string_bytes_nonneg [of ts] by linarith
      with True JString show ?thesis by simp
    next
      case False
      with JString show ?thesis
        using Cons.prems Cons.IH [of d True "b + int (length s)" "n + 1"] json_loop_complete [of lim fin ts "n + 1" "b + int (length s)"]
        unfolding prefix_Cons_all one_value_Cons by (cases "d = 0") (auto simp: one_value_def add.assoc algebra_simps)
    qed
  next
    case JOther
    then show ?thesis
      using Cons.prems Cons.IH [of d True b "n + 1"] json_loop_complete [of lim fin ts "n + 1" b]
      unfolding prefix_Cons_all one_value_Cons by (cases "d = 0") (auto simp: one_value_def add.assoc algebra_simps)
  qed
qed

text \<open>Absolute cleaned paths and their elements.\<close>

lemma abs_path_elems: "norm_segs False es \<Longrightarrow> clean_elems (abs_path es) = es"
  using clean_elems_join [of True es] by (simp add: abs_path_def)

lemma Clean_abs: "IsAbs s \<Longrightarrow> Clean s = abs_path (clean_elems s)"
  by (auto simp: Clean_alt abs_path_def Let_def)

lemma abs_path_eq: "norm_segs False es \<Longrightarrow> norm_segs False fs \<Longrightarrow> abs_path es = abs_path fs \<longleftrightarrow> es = fs"
  using abs_path_elems by metis

lemma Dir_root [simp]: "Dir (abs_path []) = abs_path []"
  by (simp add: Dir_def abs_path_def Clean_alt)

lemma Dir_abs:
  assumes "norm_segs False (es @ [x])"
  shows "Dir (abs_path (es @ [x])) = abs_path es"
proof -
  have x: "CHR ''/'' \<notin> set x" and n: "norm_segs False es"
    using assms by (auto simp: norm_segs_snoc)
  have d: "dropWhile (\<lambda>c. c \<noteq> CHR ''/'') (rev x @ CHR ''/'' # ys) = CHR ''/'' # ys" for ys
    using x by (subst dropWhile_append2) auto
  show ?thesis
  proof (cases "es = []")
    case True
    then show ?thesis using d [of "[]"] by (simp add: Dir_def abs_path_def Clean_alt)
  next
    case False
    then have "Dir (abs_path (es @ [x])) = Clean (abs_path es @ ''/'')"
      using d [of "rev (join_with (CHR ''/'') es) @ ''/''"] by (simp add: Dir_def abs_path_def join_app)
    moreover have "clean_elems (abs_path es @ ''/'') = es"
      using abs_path_elems [OF n] Split_app [of "abs_path es" "CHR ''/''" "[]"]
      by (simp add: clean_elems_def clean_segs_append IsAbs_append abs_path_def)
    ultimately show ?thesis by (simp add: Clean_abs IsAbs_append abs_path_def)
  qed
qed

lemma parent_loop_step:
  "norm_segs False (es @ [x]) \<Longrightarrow> abs_path (es @ [x]) \<noteq> root \<Longrightarrow>
   parent_loop lstat root (abs_path (es @ [x])) =
     (case lstat_verdict (lstat (abs_path (es @ [x]))) of Some e \<Rightarrow> Some (Some e) | None \<Rightarrow> parent_loop lstat root (abs_path es))"
  using norm_segs_append1 [of False es "[x]"]
  by (subst parent_loop.simps) (simp add: Dir_abs abs_path_eq split: option.split)

lemma parent_loop_total: "norm_segs False es \<Longrightarrow> \<exists>r. parent_loop lstat root (abs_path es) = Some r"
proof (induction es rule: rev_induct)
  case Nil
  then show ?case by (subst parent_loop.simps) simp
next
  case (snoc x es)
  show ?case
  proof (cases "abs_path (es @ [x]) = root")
    case True
    then show ?thesis by (subst parent_loop.simps) simp
  next
    case False
    with snoc norm_segs_append1 [of False es "[x]"] show ?thesis
      by (simp add: parent_loop_step split: option.split)
  qed
qed

lemma parent_loop_checks:
  "norm_segs False (rs @ ps) \<Longrightarrow> parent_loop lstat (abs_path rs) (abs_path (rs @ ps)) = Some None \<Longrightarrow>
   k < length ps \<Longrightarrow> lstat_verdict (lstat (abs_path (rs @ take (Suc k) ps))) = None"
proof (induction ps rule: rev_induct)
  case (snoc x ps)
  have n: "norm_segs False (rs @ ps)" "norm_segs False rs"
    using snoc.prems(1) norm_segs_append1 [of False "rs @ ps" "[x]"] norm_segs_append1 [of False "rs" "ps @ [x]"] by simp_all
  have "abs_path ((rs @ ps) @ [x]) \<noteq> abs_path rs"
    using snoc.prems(1) n by (subst abs_path_eq) simp_all
  then have st: "parent_loop lstat (abs_path rs) (abs_path (rs @ ps @ [x])) =
     (case lstat_verdict (lstat (abs_path (rs @ ps @ [x]))) of Some e \<Rightarrow> Some (Some e) | None \<Rightarrow> parent_loop lstat (abs_path rs) (abs_path (rs @ ps)))"
    using parent_loop_step [of "rs @ ps" x "abs_path rs" lstat] snoc.prems(1) by simp
  then have v: "lstat_verdict (lstat (abs_path (rs @ ps @ [x]))) = None"
    and p: "parent_loop lstat (abs_path rs) (abs_path (rs @ ps)) = Some None"
    using snoc.prems(2) by (simp_all split: option.splits)
  show ?case
  proof (cases "k < length ps")
    case True
    then show ?thesis using snoc.IH [OF n(1) p] by simp
  next
    case False
    with snoc.prems(3) have "k = length ps" by simp
    then show ?thesis using v by simp
  qed
qed simp

lemma clean_elems_name:
  assumes "\<not> IsAbs name" "IsAbs root"
  shows "clean_elems (root @ CHR ''/'' # Clean name) = clean_segs True (rev (clean_elems root)) (clean_elems name)"
proof -
  have r: "root \<noteq> []" "clean_elems root = clean_segs True [] (Split root (CHR ''/''))"
    using assms(2) by (auto simp: clean_elems_def)
  have n: "norm_segs True (clean_elems name)" using clean_elems_norm [of name] assms(1) by simp
  have "clean_segs True st (Split (Clean name) (CHR ''/'')) = clean_segs True st (clean_elems name)" for st
  proof (cases "clean_elems name")
    case Nil
    then have "Clean name = ''.''" using assms(1) by (cases "name = []") (simp_all add: Clean_alt)
    then show ?thesis using Nil by simp
  next
    case (Cons x xs)
    then have "Clean name = join_with (CHR ''/'') (clean_elems name)"
      using assms(1) join_with_Nil_iff [OF n] by (cases "name = []") (simp_all add: Clean_alt Let_def)
    moreover have "Split (join_with (CHR ''/'') (clean_elems name)) (CHR ''/'') = clean_elems name"
      using Cons norm_segs_no_slash [OF n] by (intro Split_join) auto
    ultimately show ?thesis by simp
  qed
  then show ?thesis
    using r assms(2) by (simp add: clean_elems_def [of "root @ _"] Split_app clean_segs_append IsAbs_append)
qed

lemma norm_no_dotdot_plain: "norm_segs b xs \<Longrightarrow> ''..'' \<notin> set xs \<Longrightarrow> list_all plain_elem xs"
  by (induction xs arbitrary: b) (auto simp: plain_elem_def)

lemma plain_norm: "list_all plain_elem xs \<Longrightarrow> norm_segs False xs"
  by (induction xs) (auto simp: plain_elem_def)

lemma Within_full:
  assumes "IsAbs root" "\<not> IsAbs name" "''..'' \<notin> set (clean_elems name)"
  shows "path_Join [root, Clean name] = abs_path (clean_elems root @ clean_elems name)"
    "list_all plain_elem (clean_elems root @ clean_elems name)"
proof -
  have p: "list_all plain_elem (clean_elems name)"
    using norm_no_dotdot_plain [OF clean_elems_norm assms(3)] .
  have "list_all plain_elem (clean_elems root)"
    using norm_no_dotdot_plain [OF clean_elems_norm IsAbs_Clean_confined [OF assms(1)]] .
  with p show "list_all plain_elem (clean_elems root @ clean_elems name)" by simp
  have "root \<noteq> []" using assms(1) by auto
  then have "path_Join [root, Clean name] = Clean (root @ CHR ''/'' # Clean name)" by (simp add: path_Join_def)
  also have "\<dots> = abs_path (clean_elems root @ clean_elems name)"
    using assms(1,2) \<open>root \<noteq> []\<close> p by (simp add: Clean_abs IsAbs_append clean_elems_name clean_segs_plain)
  finally show "path_Join [root, Clean name] = abs_path (clean_elems root @ clean_elems name)" .
qed

lemma clean_segs_keeps_dotdot:
  "st \<noteq> [] \<Longrightarrow> last st = ''..'' \<Longrightarrow> ''..'' \<in> set (clean_segs False st xs)"
  by (induction False st xs rule: clean_segs.induct) (auto split: list.splits if_splits dest: last_in_set)

lemma Within_guard:
  "IsAbs (Clean name) \<or> Clean name = ''..'' \<or> HasPrefix (Clean name) ''../'' \<longleftrightarrow> IsAbs name \<or> ''..'' \<in> set (clean_elems name)"
proof (cases "IsAbs name")
  case False
  have "''..'' \<in> set (clean_elems name)" if "Clean name = ''..'' \<or> HasPrefix (Clean name) ''../''"
  proof -
    have "''..'' \<in> set (clean_elems (Clean name))"
      using that
    proof
      assume "HasPrefix (Clean name) ''../''"
      then obtain r where "Clean name = ''../'' @ r" by (auto simp: HasPrefix_def prefix_def)
      then show ?thesis by (simp add: clean_elems_def clean_segs_keeps_dotdot)
    qed (simp add: clean_elems_def)
    then show ?thesis by simp
  qed
  then show ?thesis using False Clean_confined [OF False] by auto
qed simp

lemma Dir_Within: "norm_segs False es \<Longrightarrow> \<exists>fs. Dir (abs_path es) = abs_path fs \<and> norm_segs False fs"
  by (cases es rule: rev_cases) (auto simp: Dir_abs dest: norm_segs_append1)

lemma lstat_verdict_None: "lstat_verdict r = None \<Longrightarrow> r \<noteq> Inr True"
  by (auto simp: lstat_verdict_def)

section \<open>Properties\<close>



text \<open>C20. \<open>ValidateJSONComplexity\<close> accepts a token stream exactly when its limits are sensible, the
  stream ends without an error, it is one JSON value (the nesting first returns to zero at the
  last token), and the numbers of tokens, of levels and of string bytes are within the limits.\<close>

theorem ValidateJSONComplexity_correct:
  "ValidateJSONComplexity ts fin lim = None \<longleftrightarrow>
     0 < jl_tokens lim \<and> 0 < jl_depth lim \<and> 0 \<le> jl_bytes lim \<and> fin = JEOF
     \<and> one_value 0 ts \<and> int (length ts) \<le> jl_tokens lim \<and> string_bytes ts \<le> jl_bytes lim
     \<and> (\<forall>p. prefix p ts \<longrightarrow> nesting p \<le> jl_depth lim)"
proof (cases "jl_tokens lim \<le> 0 \<or> jl_depth lim \<le> 0 \<or> jl_bytes lim < 0")
  case True
  then show ?thesis by (auto simp: ValidateJSONComplexity_def)
next
  case False
  then have "(\<forall>p. prefix p ts \<and> p \<noteq> [] \<longrightarrow> nesting p \<le> jl_depth lim) \<longleftrightarrow> (\<forall>p. prefix p ts \<longrightarrow> nesting p \<le> jl_depth lim)"
    by force
  with False json_loop_None [of 0 lim False 0 fin ts 0] show ?thesis
    by (simp add: ValidateJSONComplexity_def)
qed

theorem ValidateJSONComplexity_correct_witness:
  "one_value 0 [JOpen, JString ''k'', JOther, JClose] \<and> ValidateJSONComplexity [JOpen, JOpen] JEOF \<lparr>jl_tokens = 9, jl_depth = 1, jl_bytes = 4\<rparr> \<noteq> None"
proof -
  have "ValidateJSONComplexity [JOpen, JString ''k'', JOther, JClose] JEOF \<lparr>jl_tokens = 9, jl_depth = 1, jl_bytes = 4\<rparr> = None"
    "ValidateJSONComplexity [JOpen, JOpen] JEOF \<lparr>jl_tokens = 9, jl_depth = 1, jl_bytes = 4\<rparr> \<noteq> None"
    by (simp_all add: ValidateJSONComplexity_def)
  with ValidateJSONComplexity_correct [of "[JOpen, JString ''k'', JOther, JClose]" JEOF "\<lparr>jl_tokens = 9, jl_depth = 1, jl_bytes = 4\<rparr>"]
  show ?thesis by blast
qed

text \<open>C21. Below a cleaned absolute root, \<open>Within\<close> always terminates; a path that it returns is the root
  followed by the elements of the cleaned name, none of them \<open>..\<close>, and no directory between the
  root and the last element is a symbolic link; an absolute name or one that climbs above the
  root is refused.\<close>

theorem Within_confined:
  assumes "IsAbs root" "Clean root = root"
  shows "(\<exists>r. Within lstat root name = Some r)
    \<and> (\<forall>full. Within lstat root name = Some (Inr full) \<longrightarrow>
        full = abs_path (clean_elems root @ clean_elems name) \<and> ''..'' \<notin> set (clean_elems name)
        \<and> (\<forall>k. 0 < k \<and> k < length (clean_elems name) \<longrightarrow>
             lstat (abs_path (clean_elems root @ take k (clean_elems name))) \<noteq> Inr True))
    \<and> (CHR 0x00 \<notin> set name \<and> (IsAbs name \<or> ''..'' \<in> set (clean_elems name)) \<longrightarrow>
         Within lstat root name = Some (Inl (Errorf ''path escapes root'')))"
proof (cases "CHR 0x00 \<in> set name \<or> IsAbs name \<or> ''..'' \<in> set (clean_elems name)")
  case True
  have "Within lstat root name = Some (Inl (if CHR 0x00 \<in> set name then Errorf ''NUL in path'' else Errorf ''path escapes root''))"
    unfolding Within_def Let_def Within_guard using True by auto
  then show ?thesis by simp
next
  case False
  let ?r = "clean_elems root" and ?n = "clean_elems name"
  have f: "path_Join [root, Clean name] = abs_path (?r @ ?n)" "norm_segs False (?r @ ?n)"
    using False Within_full [OF assms(1), of name] plain_norm by blast+
  have r: "abs_path ?r = root" using Clean_abs [OF assms(1)] assms(2) by simp
  have w: "Within lstat root name =
      map_option (\<lambda>r. case r of Some e \<Rightarrow> Inl e | None \<Rightarrow> Inr (abs_path (?r @ ?n))) (parent_loop lstat root (Dir (abs_path (?r @ ?n))))"
    unfolding Within_def Let_def f(1) using False Within_guard [of name] by simp
  obtain v where v: "parent_loop lstat root (Dir (abs_path (?r @ ?n))) = Some v"
    using Dir_Within [OF f(2)] parent_loop_total [of _ lstat root] by metis
  have checks: "lstat (abs_path (?r @ take k ?n)) \<noteq> Inr True" if "v = None" "0 < k" "k < length ?n" for k
  proof -
    from that obtain x ps where n: "?n = ps @ [x]" by (cases ?n rule: rev_cases) auto
    with f(2) have "Dir (abs_path (?r @ ?n)) = abs_path (?r @ ps)" "norm_segs False (?r @ ps)"
      using Dir_abs [of "?r @ ps" x] norm_segs_append1 [of False "?r @ ps" "[x]"] by simp_all
    then have "lstat_verdict (lstat (abs_path (?r @ take (Suc (k - 1)) ps))) = None"
      using parent_loop_checks [of ?r ps lstat "k - 1"] v that n r by simp
    then show ?thesis using that n by (auto dest: lstat_verdict_None)
  qed
  show ?thesis using False w v checks by (auto split: option.splits)
qed

theorem Within_confined_witness:
  "\<exists>r. Within (\<lambda>p. Inr False) ''/r'' ''a/../b'' = Some r"
  using Within_confined [of "''/r''" "\<lambda>p. Inr False" "''a/../b''"] by (simp add: Clean_def)

end
