(* ===== verification/VmIdentity.thy ===== *)
theory VmIdentity
  imports Network Fsutil
begin

text \<open>
  Ownership of virtual machine processes, src/internal/firecracker/vm.go from \<open>PIDStart\<close> on:
  the identity of a process read from \<open>/proc\<close>, adoption after a restart, killing, waiting for
  the guest, and removal.  Reading a file is a function \<open>rd\<close> from paths to results; the
  routines that run while processes come and go (\<open>Kill\<close>, \<open>Ready\<close>) take one such function for
  each of their observations.

  The locale \<open>procfs\<close> is the interface of \<open>/proc\<close>: what its files contain for a table of
  processes, whatever names the processes gave themselves.  It is interpreted on the host
  model \<open>read_file\<close>.  The theory shows that the parsers recover the identity from those files,
  that only a process in the sandbox's own control group is adopted or signalled, and that
  \<open>Kill\<close> returns nil only once the group is empty.
\<close>

type_synonym reader = "string \<Rightarrow> string result"

record Manager =
  Manager_Root :: string
  Manager_Firecracker :: string
  Manager_Jailer :: string
  Manager_Storage :: string
  Manager_procRoot :: string

section \<open>Paths\<close>

text \<open>\<open>filepath.Base\<close>.\<close>

definition Base :: "string \<Rightarrow> string" where
  "Base s =
     (if s = [] then ''.''
      else let t = rev (dropWhile (\<lambda>c. c = CHR ''/'') (rev s)) in
        if t = [] then ''/'' else rev (takeWhile (\<lambda>c. c \<noteq> CHR ''/'') (rev t)))"

definition Manager_Dir :: "Manager \<Rightarrow> string \<Rightarrow> string" where
  "Manager_Dir m sid = path_Join [Manager_Root m, ''sandboxes'', sid]"

definition Jail :: "Manager \<Rightarrow> string \<Rightarrow> string" where
  "Jail m sid = path_Join [Manager_Root m, ''jailer'', Base (Manager_Firecracker m), sid, ''root'']"

definition processRoot :: "Manager \<Rightarrow> string" where
  "processRoot m = (if Manager_procRoot m \<noteq> [] then Manager_procRoot m else ''/proc'')"

section \<open>Process identity\<close>

text \<open>What follows the last occurrence of a pattern, \<open>strings.LastIndex\<close> and the slice behind it.\<close>

fun after_last :: "string \<Rightarrow> string \<Rightarrow> string option" where
  "after_last pat [] = None"
| "after_last pat (x # xs) =
     (case after_last pat xs of
        Some r \<Rightarrow> Some r
      | None \<Rightarrow> if HasPrefix (x # xs) pat then Some (drop (length pat) (x # xs)) else None)"

definition pidStartAt :: "reader \<Rightarrow> string \<Rightarrow> int \<Rightarrow> string result" where
  "pidStartAt rd procRoot pid =
     (case rd (path_Join [procRoot, ''sys/kernel/random/boot_id'']) of
        Inl e \<Rightarrow> Inl e
      | Inr bootRaw \<Rightarrow>
          (let bootID = TrimSpace bootRaw in
           if bootID = [] \<or> contains bootID '':'' then Inl (Errorf ''malformed host boot ID'')
           else case rd (path_Join [procRoot, Itoa pid, ''stat'']) of
             Inl e \<Rightarrow> Inl e
           | Inr b \<Rightarrow>
               (case after_last '') '' b of
                  None \<Rightarrow> Inl (Errorf ''malformed process stat'')
                | Some r \<Rightarrow>
                    (let p = Fields r in
                     if length p < 20 then Inl (Errorf ''malformed process stat'')
                     else Inr (bootID @ '':'' @ p ! 19)))))"

text \<open>The third part of \<open>strings.SplitN(line, ":", 3)\<close>, if there are three.\<close>

definition third_part :: "string \<Rightarrow> string option" where
  "third_part line =
     (let (a, r, ok) = Cut line (CHR '':'') in
      if \<not> ok then None
      else let (b, c, ok2) = Cut r (CHR '':'') in if ok2 then Some c else None)"

definition cgroupOwnedAt :: "reader \<Rightarrow> string \<Rightarrow> Sandbox \<Rightarrow> bool result" where
  "cgroupOwnedAt rd procRoot s =
     (case rd (path_Join [procRoot, Itoa (Sandbox_PID s), ''cgroup'']) of
        Inl e \<Rightarrow> if e = ErrNotExist then Inr False else Inl e
      | Inr grp \<Rightarrow>
          Inr (list_ex (\<lambda>line. third_part line = Some (''/niflhel/'' @ Sandbox_ID s)) (Split grp (CHR 0x0A))))"

definition aliveAt :: "reader \<Rightarrow> string \<Rightarrow> Sandbox \<Rightarrow> bool" where
  "aliveAt rd procRoot s =
     (if Sandbox_PID s \<le> 1 \<or> Sandbox_PIDStart s = [] then False
      else case pidStartAt rd procRoot (Sandbox_PID s) of
        Inl e \<Rightarrow> False
      | Inr current \<Rightarrow>
          (if current = Sandbox_PIDStart s
              \<or> \<not> contains (Sandbox_PIDStart s) '':'' \<and> HasSuffix current ('':'' @ Sandbox_PIDStart s)
           then cgroupOwnedAt rd procRoot s = Inr True
           else False))"

definition Alive :: "reader \<Rightarrow> Sandbox \<Rightarrow> bool" where
  "Alive rd s = aliveAt rd ''/proc'' s"

definition ownedAlive :: "Manager \<Rightarrow> reader \<Rightarrow> Sandbox \<Rightarrow> bool result" where
  "ownedAlive m rd s =
     (if \<not> aliveAt rd (processRoot m) s then Inr False else cgroupOwnedAt rd (processRoot m) s)"

section \<open>Adoption\<close>

definition forget_pid :: "Sandbox \<Rightarrow> Sandbox" where
  "forget_pid s = s\<lparr>Sandbox_PID := 0, Sandbox_PIDStart := []\<rparr>"

definition Discover :: "Manager \<Rightarrow> reader \<Rightarrow> Sandbox \<Rightarrow> Sandbox \<times> error option" where
  "Discover m rd s =
     (case ownedAlive m rd s of
        Inl e \<Rightarrow> (s, Some e)
      | Inr True \<Rightarrow> (s, None)
      | Inr False \<Rightarrow>
          (case rd (path_Join [Jail m (Sandbox_ID s), Base (Manager_Firecracker m) @ ''.pid'']) of
             Inl e \<Rightarrow> if e = ErrNotExist then (forget_pid s, None) else (s, Some e)
           | Inr raw \<Rightarrow>
               (case Atoi (TrimSpace raw) of
                  Inl e \<Rightarrow> (s, Some (Errorf ''invalid jailer PID record''))
                | Inr pid \<Rightarrow>
                    if pid < 2 then (s, Some (Errorf ''invalid jailer PID record''))
                    else case pidStartAt rd (processRoot m) pid of
                      Inl e \<Rightarrow> if e = ErrNotExist then (forget_pid s, None) else (s, Some e)
                    | Inr start \<Rightarrow>
                        (let s1 = s\<lparr>Sandbox_PID := pid, Sandbox_PIDStart := start\<rparr> in
                         case ownedAlive m rd s1 of
                           Inl e \<Rightarrow> (s1, Some e)
                         | Inr owned \<Rightarrow> (if owned then s1 else forget_pid s1, None)))))"

section \<open>Killing\<close>

text \<open>
  The k-th poll of the wait loop reads the host through \<open>obs k\<close>; \<open>ctx k\<close> is the error of the
  context if it is done by then.
\<close>

partial_function (option) kill_wait :: "(nat \<Rightarrow> reader) \<Rightarrow> (nat \<Rightarrow> error option) \<Rightarrow> Sandbox \<Rightarrow> nat \<Rightarrow> error option option" where
  "kill_wait obs ctx s k =
     (if Alive (obs k) s then (case ctx k of Some e \<Rightarrow> Some (Some e) | None \<Rightarrow> kill_wait obs ctx s (Suc k))
      else Some None)"

definition ESRCH :: error where
  "ESRCH = ErrSys ''no such process''"

record kill_env =
  ke_open :: "error option"
  ke_signal :: "error option"
  ke_ctx :: "nat \<Rightarrow> error option"

text \<open>
  \<open>Kill\<close> observes the host at \<open>obs 0\<close> (discovery), \<open>obs 1\<close> (first check), \<open>obs 2\<close> (the check
  with the process descriptor open) and \<open>obs (3 + k)\<close> (the k-th poll).  The first component of
  its outcome is the process it sent the signal to.
\<close>

definition Kill :: "Manager \<Rightarrow> (nat \<Rightarrow> reader) \<Rightarrow> kill_env \<Rightarrow> Sandbox \<Rightarrow> (int option \<times> error option) option" where
  "Kill m obs env s0 =
     (case Discover m (obs 0) s0 of
        (_, Some e) \<Rightarrow> Some (None, Some e)
      | (s, None) \<Rightarrow>
        (case ownedAlive m (obs 1) s of
           Inl e \<Rightarrow> Some (None, Some e)
         | Inr owned \<Rightarrow>
           if \<not> owned then Some (None, None)
           else if ke_open env = Some ESRCH then Some (None, None)
           else if ke_open env \<noteq> None then Some (None, ke_open env)
           else case ownedAlive m (obs 2) s of
             Inl e \<Rightarrow> Some (None, Some e)
           | Inr owned2 \<Rightarrow>
             if \<not> owned2 then Some (None, None)
             else if ke_signal env \<noteq> None \<and> ke_signal env \<noteq> Some ESRCH then Some (None, ke_signal env)
             else map_option (\<lambda>r. (Some (Sandbox_PID s), r)) (kill_wait (\<lambda>k. obs (3 + k)) (ke_ctx env) s 0)))"

section \<open>Waiting for the guest\<close>

record GuestStatus =
  GuestStatus_Protocol :: int
  GuestStatus_ID :: string
  GuestStatus_Generation :: int
  GuestStatus_State :: string
  GuestStatus_Exit :: "Exit option"
  GuestStatus_PID :: int

text \<open>\<open>calls k\<close> is the outcome of the k-th status call of the client.\<close>

partial_function (option) Ready_loop :: "(nat \<Rightarrow> GuestStatus result) \<Rightarrow> (nat \<Rightarrow> reader) \<Rightarrow> (nat \<Rightarrow> bool) \<Rightarrow> Sandbox \<Rightarrow> nat \<Rightarrow> error option option" where
  "Ready_loop calls obs ctx s k =
     (if \<not> isl (calls k) then
        Some (let st = projr (calls k) in
          if GuestStatus_Protocol st \<noteq> Protocol \<or> GuestStatus_ID st \<noteq> Sandbox_ID s \<or> GuestStatus_Generation st \<noteq> Sandbox_Generation s
          then Some (Errorf ''guest identity/protocol mismatch'') else None)
      else if \<not> Alive (obs k) s then Some (Some (Errorf ''VMM exited before guest ready; see console.log''))
      else if ctx k then Some (Some (Errorf ''guest readiness timeout''))
      else Ready_loop calls obs ctx s (Suc k))"

definition Ready :: "unit result \<Rightarrow> (nat \<Rightarrow> GuestStatus result) \<Rightarrow> (nat \<Rightarrow> reader) \<Rightarrow> (nat \<Rightarrow> bool) \<Rightarrow> Sandbox \<Rightarrow> error option option" where
  "Ready client calls obs ctx s =
     (case client of Inl e \<Rightarrow> Some (Some e) | Inr _ \<Rightarrow> Ready_loop calls obs ctx s 0)"

section \<open>Removal\<close>

text \<open>The directories a removal deletes, in order, and its error.\<close>

definition Remove_vm :: "Manager \<Rightarrow> reader \<Rightarrow> (string \<Rightarrow> error option) \<Rightarrow> Sandbox \<Rightarrow> string list \<times> error option" where
  "Remove_vm m rd rm s =
     (let jd = Dir (Jail m (Sandbox_ID s)); cg = path_Join [''/sys/fs/cgroup/niflhel'', Sandbox_ID s] in
      if Alive rd s then ([], Some (Errorf ''refusing to remove live VM''))
      else case rm jd of Some e \<Rightarrow> ([], Some e)
      | None \<Rightarrow>
          (case rm cg of
             Some e \<Rightarrow> ([jd], if e = ErrNotExist then None else Some e)
           | None \<Rightarrow> ([jd, cg], None)))"

section \<open>The files of /proc\<close>

record process =
  p_comm :: string
  p_fields :: "string list"
  p_cgroup :: "(string \<times> string \<times> string) list"

definition field_char :: "char \<Rightarrow> bool" where
  "field_char c \<longleftrightarrow> is_alnum c \<or> c = CHR ''-''"

definition p_start :: "process \<Rightarrow> string" where
  "p_start p = p_fields p ! 19"

text \<open>
  A process as the kernel shows it: the name is arbitrary, the fields after it are letters and
  numbers, the start time being the twentieth of them, and lines of the control group file have
  two parts without a colon before the path.
\<close>

definition proc_ok :: "process \<Rightarrow> bool" where
  "proc_ok p \<longleftrightarrow> 20 \<le> length (p_fields p) \<and> list_all (\<lambda>f. f \<noteq> [] \<and> list_all field_char f) (p_fields p)
     \<and> list_all (\<lambda>(a, b, c). CHR '':'' \<notin> set a \<and> CHR '':'' \<notin> set b \<and> CHR 0x0A \<notin> set a \<and> CHR 0x0A \<notin> set b \<and> CHR 0x0A \<notin> set c) (p_cgroup p)"

definition stat_line :: "int \<Rightarrow> process \<Rightarrow> string" where
  "stat_line pid p = Itoa pid @ '' ('' @ p_comm p @ '') '' @ join_with (CHR '' '') (p_fields p) @ [CHR 0x0A]"

definition cgroup_file :: "process \<Rightarrow> string" where
  "cgroup_file p = concat (map (\<lambda>(a, b, c). a @ '':'' @ b @ '':'' @ c @ [CHR 0x0A]) (p_cgroup p))"

definition in_group :: "string \<Rightarrow> process \<Rightarrow> bool" where
  "in_group sid p = list_ex (\<lambda>(a, b, c). c = ''/niflhel/'' @ sid) (p_cgroup p)"

definition boot_ok :: "string \<Rightarrow> bool" where
  "boot_ok b \<longleftrightarrow> b \<noteq> [] \<and> list_all field_char b"

text \<open>The process that a record names: its boot and start time, or for a legacy record its start
  time alone.\<close>

definition identity :: "string \<Rightarrow> Sandbox \<Rightarrow> process \<Rightarrow> bool" where
  "identity boot s p \<longleftrightarrow> Sandbox_PIDStart s = boot @ '':'' @ p_start p \<or> Sandbox_PIDStart s = p_start p"

section \<open>Lemmas on the parsers\<close>

lemma field_charD: "field_char c \<Longrightarrow> \<not> is_space c \<and> c \<noteq> CHR '')'' \<and> c \<noteq> CHR '':'' \<and> c \<noteq> CHR 0x0A"
  by (auto simp: field_char_def is_alnum_def is_space_def is_digit_def split: if_splits)

lemma after_last_None: "CHR '')'' \<notin> set r \<Longrightarrow> after_last '') '' r = None"
  by (induction r) (auto simp: HasPrefix_def)

lemma after_last_append: "CHR '')'' \<notin> set r \<Longrightarrow> after_last '') '' (pre @ '') '' @ r) = Some r"
proof (induction pre)
  case Nil
  then show ?case using after_last_None [of "CHR '' '' # r"] by (simp add: HasPrefix_def)
qed simp

lemma fields_aux_word: "list_all (\<lambda>c. \<not> is_space c) f \<Longrightarrow> fields_aux acc (f @ s) = fields_aux (rev f @ acc) s"
  by (induction f arbitrary: acc) auto

lemma is_space_simps [simp]: "is_space CHR '' ''" "is_space (CHR 0x0A)"
  by (simp_all add: is_space_def)

lemma Fields_join:
  "list_all (\<lambda>f. f \<noteq> [] \<and> list_all (\<lambda>c. \<not> is_space c) f) fs \<Longrightarrow> Fields (join_with (CHR '' '') fs @ [CHR 0x0A]) = fs"
  unfolding Fields_def
proof (induction "CHR '' ''" fs rule: join_with.induct)
  case (2 x)
  then show ?case using fields_aux_word [of x "[]" "[CHR 0x0A]"] by simp
next
  case (3 x y ys)
  then show ?case
    using fields_aux_word [of x "[]" "CHR '' '' # join_with (CHR '' '') (y # ys) @ [CHR 0x0A]"] by simp
qed simp

lemma Split_lines:
  "list_all (\<lambda>l. c \<notin> set l) ls \<Longrightarrow> Split (concat (map (\<lambda>l. l @ [c]) ls)) c = ls @ [[]]"
  by (induction ls) (auto simp: Split_append)

lemma third_part_line:
  "CHR '':'' \<notin> set a \<Longrightarrow> CHR '':'' \<notin> set b \<Longrightarrow> third_part (a @ '':'' @ b @ '':'' @ c) = Some c"
  by (simp add: third_part_def)

lemma third_part_Nil [simp]: "third_part [] = None"
  by (simp add: third_part_def Cut_def)

lemma cgroup_lines:
  assumes "proc_ok p"
  shows "list_ex (\<lambda>line. third_part line = Some w) (Split (cgroup_file p) (CHR 0x0A)) = list_ex (\<lambda>(a, b, c). c = w) (p_cgroup p)"
proof -
  let ?ls = "map (\<lambda>(a, b, c). a @ '':'' @ b @ '':'' @ c) (p_cgroup p)"
  have "cgroup_file p = concat (map (\<lambda>l. l @ [CHR 0x0A]) ?ls)"
    by (simp add: cgroup_file_def comp_def case_prod_unfold)
  moreover have "list_all (\<lambda>l. CHR 0x0A \<notin> set l) ?ls"
    using assms by (auto simp: proc_ok_def list_all_iff)
  ultimately have "Split (cgroup_file p) (CHR 0x0A) = ?ls @ [[]]"
    using Split_lines [of "CHR 0x0A" ?ls] by simp
  moreover have "third_part (a @ '':'' @ b @ '':'' @ c) = Some c" if "(a, b, c) \<in> set (p_cgroup p)" for a b c
    using assms that by (intro third_part_line) (auto simp: proc_ok_def list_all_iff)
  ultimately show ?thesis
    by (force simp: list_ex_iff)
qed

lemma TrimSpace_line: "list_all (\<lambda>c. \<not> is_space c) b \<Longrightarrow> TrimSpace (b @ [CHR 0x0A]) = b"
proof -
  assume b: "list_all (\<lambda>c. \<not> is_space c) b"
  have "dropWhile is_space (b @ [CHR 0x0A]) = (if b = [] then [] else b @ [CHR 0x0A])"
    using b by (cases b) auto
  moreover have "dropWhile is_space (rev b) = rev b"
    using b by (cases "rev b") (auto simp: list_all_iff dest: arg_cong [of _ _ set])
  ultimately show ?thesis by (simp add: TrimSpace_def)
qed

lemma contains_char: "contains s [c] \<longleftrightarrow> c \<in> set s"
  by (auto simp: contains_def sublist_def in_set_conv_decomp)

lemma boot_okD:
  assumes "boot_ok b"
  shows "b \<noteq> []" "TrimSpace (b @ [CHR 0x0A]) = b" "CHR '':'' \<notin> set b"
  using assms TrimSpace_line [of b] by (auto simp: boot_ok_def list_all_iff dest: field_charD)

lemma set_join_with: "x \<in> set (join_with c fs) \<Longrightarrow> x = c \<or> (\<exists>f \<in> set fs. x \<in> set f)"
  by (induction c fs rule: join_with.induct) auto

lemma proc_okD:
  assumes "proc_ok p"
  shows "after_last '') '' (stat_line pid p) = Some (join_with (CHR '' '') (p_fields p) @ [CHR 0x0A])"
    "Fields (join_with (CHR '' '') (p_fields p) @ [CHR 0x0A]) = p_fields p" "20 \<le> length (p_fields p)"
    "CHR '':'' \<notin> set (p_start p)" "p_start p \<noteq> []"
proof -
  have f: "f \<noteq> [] \<and> (\<forall>c \<in> set f. field_char c)" if "f \<in> set (p_fields p)" for f
    using assms that by (simp add: proc_ok_def list_all_iff)
  have "CHR '')'' \<notin> set (join_with (CHR '' '') (p_fields p) @ [CHR 0x0A])"
    using f field_charD by (auto dest!: set_join_with)
  from after_last_append [OF this, of "Itoa pid @ '' ('' @ p_comm p"]
  show "after_last '') '' (stat_line pid p) = Some (join_with (CHR '' '') (p_fields p) @ [CHR 0x0A])"
    by (simp add: stat_line_def)
  show "Fields (join_with (CHR '' '') (p_fields p) @ [CHR 0x0A]) = p_fields p"
    using f field_charD by (intro Fields_join) (simp add: list_all_iff)
  show l: "20 \<le> length (p_fields p)" using assms by (simp add: proc_ok_def)
  then have "p_start p \<in> set (p_fields p)" by (simp add: p_start_def)
  then show "CHR '':'' \<notin> set (p_start p)" "p_start p \<noteq> []"
    using f field_charD by auto
qed

text \<open>The test of \<open>aliveAt\<close> on the start time: exact, or the legacy form without a boot.\<close>

lemma identity_iff:
  assumes "proc_ok p" "CHR '':'' \<notin> set boot"
  shows "boot @ '':'' @ p_start p = Sandbox_PIDStart s
      \<or> \<not> contains (Sandbox_PIDStart s) '':'' \<and> HasSuffix (boot @ '':'' @ p_start p) ('':'' @ Sandbox_PIDStart s)
    \<longleftrightarrow> identity boot s p"
proof -
  have "Sandbox_PIDStart s = p_start p"
    if leg: "\<not> contains (Sandbox_PIDStart s) '':''" "HasSuffix (boot @ '':'' @ p_start p) ('':'' @ Sandbox_PIDStart s)"
  proof -
    obtain zs where z: "boot @ '':'' @ p_start p = zs @ '':'' @ Sandbox_PIDStart s"
      using leg(2) by (auto simp: HasSuffix_def suffix_def)
    have t: "takeWhile (\<lambda>c. c \<noteq> CHR '':'') (rev (ys @ '':'' @ xs)) = rev xs" if "CHR '':'' \<notin> set xs" for xs ys
      using that by (induction xs rule: rev_induct) auto
    from t [of "p_start p" boot] t [of "Sandbox_PIDStart s" zs] show ?thesis
      using leg(1) proc_okD(4) [OF assms(1)] unfolding z by (simp add: contains_char)
  qed
  moreover have "\<not> contains (p_start p) '':''" "HasSuffix (boot @ '':'' @ p_start p) ('':'' @ p_start p)"
    using proc_okD(4) [OF assms(1)] by (auto simp: contains_char HasSuffix_def suffix_def)
  ultimately show ?thesis unfolding identity_def by metis
qed

lemma kill_wait_nil:
  assumes "kill_wait obs ctx s k = Some None"
  shows "\<exists>j \<ge> k. \<not> Alive (obs j) s"
proof -
  have "r = None \<longrightarrow> (\<exists>j \<ge> k. \<not> Alive (obs j) s)" if "kill_wait obs ctx s k = Some r" for r
  proof (rule kill_wait.raw_induct [OF _ that, where P = "\<lambda>obs ctx s k r. r = None \<longrightarrow> (\<exists>j \<ge> k. \<not> Alive (obs j) s)"])
    fix kw obs ctx s k r
    assume IH: "\<And>obs ctx s k r. kw obs ctx s k = Some r \<Longrightarrow> r = None \<longrightarrow> (\<exists>j \<ge> k. \<not> Alive (obs j) s)"
      and st: "(if Alive (obs k) s then (case ctx k of None \<Rightarrow> kw obs ctx s (Suc k) | Some e \<Rightarrow> Some (Some e)) else Some None) = Some r"
    show "r = None \<longrightarrow> (\<exists>j \<ge> k. \<not> Alive (obs j) s)"
    proof (cases "Alive (obs k) s \<and> r = None")
      case True
      with st have "kw obs ctx s (Suc k) = Some r" by (simp split: option.splits)
      with IH True obtain j where "Suc k \<le> j" "\<not> Alive (obs j) s" by blast
      then show ?thesis using Suc_leD by blast
    qed blast
  qed
  with assms show ?thesis by blast
qed

lemma kill_wait_total:
  "\<not> Alive (obs (k + n)) s \<or> ctx (k + n) \<noteq> None \<Longrightarrow> \<exists>r. kill_wait obs ctx s k = Some r"
proof (induction n arbitrary: k)
  case 0
  then show ?case by (subst kill_wait.simps) (auto split: option.split)
next
  case (Suc n)
  then have "\<exists>r. kill_wait obs ctx s (Suc k) = Some r" by simp
  then show ?case by (subst kill_wait.simps) (auto split: option.split)
qed

section \<open>The interface of /proc\<close>

locale procfs =
  fixes valid :: "'h \<Rightarrow> bool"
    and rd :: "'h \<Rightarrow> reader"
    and root :: string
    and boot :: "'h \<Rightarrow> string"
    and procs :: "'h \<Rightarrow> int \<Rightarrow> process option"
  assumes boot_read: "valid h \<Longrightarrow> rd h (path_Join [root, ''sys/kernel/random/boot_id'']) = Inr (boot h @ [CHR 0x0A])"
    and boot_valid: "valid h \<Longrightarrow> boot_ok (boot h)"
    and stat_read: "valid h \<Longrightarrow> rd h (path_Join [root, Itoa pid, ''stat'']) =
      (case procs h pid of None \<Rightarrow> Inl ErrNotExist | Some p \<Rightarrow> Inr (stat_line pid p))"
    and cgroup_read: "valid h \<Longrightarrow> rd h (path_Join [root, Itoa pid, ''cgroup'']) =
      (case procs h pid of None \<Rightarrow> Inl ErrNotExist | Some p \<Rightarrow> Inr (cgroup_file p))"
    and procs_ok: "valid h \<Longrightarrow> procs h pid = Some p \<Longrightarrow> proc_ok p"
begin

definition owner :: "'h \<Rightarrow> Sandbox \<Rightarrow> bool" where
  "owner h s \<longleftrightarrow> 1 < Sandbox_PID s \<and> Sandbox_PIDStart s \<noteq> [] \<and>
     (\<exists>p. procs h (Sandbox_PID s) = Some p \<and> identity (boot h) s p \<and> in_group (Sandbox_ID s) p)"

lemma pidStart:
  assumes "valid h"
  shows "pidStartAt (rd h) root pid =
    (case procs h pid of None \<Rightarrow> Inl ErrNotExist | Some p \<Rightarrow> Inr (boot h @ '':'' @ p_start p))"
proof (cases "procs h pid")
  case None
  then show ?thesis
    using boot_read [OF assms] stat_read [OF assms] boot_okD [OF boot_valid [OF assms]]
    by (simp add: pidStartAt_def contains_char)
next
  case (Some p)
  then show ?thesis
    using boot_read [OF assms] stat_read [OF assms] boot_okD [OF boot_valid [OF assms]] proc_okD [OF procs_ok [OF assms Some]]
    by (simp add: pidStartAt_def contains_char Let_def p_start_def)
qed

lemma cgroup:
  assumes "valid h"
  shows "cgroupOwnedAt (rd h) root s =
    Inr (case procs h (Sandbox_PID s) of None \<Rightarrow> False | Some p \<Rightarrow> in_group (Sandbox_ID s) p)"
  using cgroup_read [OF assms] procs_ok [OF assms] cgroup_lines
  by (simp add: cgroupOwnedAt_def in_group_def split: option.split)

lemma alive_iff:
  assumes "valid h"
  shows "aliveAt (rd h) root s \<longleftrightarrow> owner h s"
proof (cases "procs h (Sandbox_PID s)")
  case None
  then show ?thesis using assms by (auto simp: aliveAt_def owner_def pidStart)
next
  case (Some p)
  show ?thesis
    unfolding aliveAt_def owner_def pidStart [OF assms] cgroup [OF assms] Some option.case sum.case
      identity_iff [OF procs_ok [OF assms Some] boot_okD(3) [OF boot_valid [OF assms]]]
    by auto
qed

lemma ownedAlive:
  "valid h \<Longrightarrow> processRoot m = root \<Longrightarrow> ownedAlive m (rd h) s = Inr (owner h s)"
  by (auto simp: ownedAlive_def alive_iff cgroup owner_def split: option.split)

text \<open>Discovery keeps a live record, otherwise adopts the process of the pid file if it is in the
  control group of the sandbox, otherwise forgets the process.\<close>

definition pidfile :: "Manager \<Rightarrow> Sandbox \<Rightarrow> 'h \<Rightarrow> int \<Rightarrow> bool" where
  "pidfile m s h pid \<longleftrightarrow>
     (\<exists>raw. rd h (path_Join [Jail m (Sandbox_ID s), Base (Manager_Firecracker m) @ ''.pid'']) = Inr raw \<and> Atoi (TrimSpace raw) = Inr pid)"

definition adopted :: "'h \<Rightarrow> int \<Rightarrow> process \<Rightarrow> Sandbox \<Rightarrow> Sandbox" where
  "adopted h pid p s = s\<lparr>Sandbox_PID := pid, Sandbox_PIDStart := boot h @ '':'' @ p_start p\<rparr>"

lemma owner_adopted:
  "procs h pid = Some p \<Longrightarrow> owner h (adopted h pid p s) \<longleftrightarrow> 1 < pid \<and> in_group (Sandbox_ID s) p"
  by (auto simp: owner_def adopted_def identity_def)

lemma Discover_pidfile:
  assumes "valid h" "processRoot m = root" "\<not> owner h s"
    "rd h (path_Join [Jail m (Sandbox_ID s), Base (Manager_Firecracker m) @ ''.pid'']) = Inr raw" "Atoi (TrimSpace raw) = Inr pid" "1 < pid"
  shows "Discover m (rd h) s =
    (case procs h pid of None \<Rightarrow> (forget_pid s, None)
     | Some p \<Rightarrow> (if in_group (Sandbox_ID s) p then adopted h pid p s else forget_pid s, None))"
proof -
  have "forget_pid (adopted h pid p s) = forget_pid s" for p
    by (simp add: forget_pid_def adopted_def)
  then show ?thesis
    using assms owner_adopted [of h pid _ s] ownedAlive [OF assms(1,2)] pidStart [OF assms(1), of pid]
    unfolding Discover_def adopted_def by (simp split: option.split)
qed

lemma Discover_cases:
  assumes "valid h" "processRoot m = root" "Discover m (rd h) s = (s', None)"
  shows "owner h s \<and> s' = s \<or> \<not> owner h s \<and> s' = forget_pid s \<or>
    (\<exists>pid p. \<not> owner h s \<and> pidfile m s h pid \<and> procs h pid = Some p \<and> 1 < pid \<and> in_group (Sandbox_ID s) p \<and> s' = adopted h pid p s)"
proof (cases "owner h s")
  case True
  then show ?thesis using assms(3) ownedAlive [OF assms(1,2), of s] by (simp add: Discover_def)
next
  case False
  let ?f = "rd h (path_Join [Jail m (Sandbox_ID s), Base (Manager_Firecracker m) @ ''.pid''])"
  show ?thesis
  proof (cases "\<exists>raw pid. ?f = Inr raw \<and> Atoi (TrimSpace raw) = Inr pid \<and> 1 < pid")
    case True
    then obtain raw pid where r: "?f = Inr raw" "Atoi (TrimSpace raw) = Inr pid" "1 < pid" by blast
    then have "pidfile m s h pid" by (auto simp: pidfile_def)
    then show ?thesis
      using assms(3) Discover_pidfile [OF assms(1,2) False r] False r(3) by (auto split: option.splits if_splits)
  next
    case none: False
    have "ownedAlive m (rd h) s = Inr False" using ownedAlive [OF assms(1,2)] False by simp
    then have "s' = forget_pid s"
      using assms(3) none unfolding Discover_def by (force split: sum.splits if_splits)
    with False show ?thesis by simp
  qed
qed

lemma Discover_adopts:
  "valid h \<Longrightarrow> processRoot m = root \<Longrightarrow> \<not> owner h s \<Longrightarrow> pidfile m s h pid \<Longrightarrow> procs h pid = Some p \<Longrightarrow> 1 < pid \<Longrightarrow>
   in_group (Sandbox_ID s) p \<Longrightarrow> Discover m (rd h) s = (adopted h pid p s, None)"
  using Discover_pidfile [of h m s] unfolding pidfile_def by fastforce

text \<open>
  A run of the host: \<open>hs\<close> are the states that successive observations see.  The boot stays, and
  nothing enters the control group of the sandbox.
\<close>

definition quiet :: "string \<Rightarrow> (nat \<Rightarrow> 'h) \<Rightarrow> bool" where
  "quiet sid hs \<longleftrightarrow> (\<forall>k. valid (hs k) \<and> boot (hs (Suc k)) = boot (hs k)
     \<and> (\<forall>pid p. procs (hs (Suc k)) pid = Some p \<and> in_group sid p \<longrightarrow> procs (hs k) pid = Some p))"

lemma quiet_back:
  assumes "quiet sid hs" "procs (hs (i + k)) pid = Some p" "in_group sid p"
  shows "procs (hs i) pid = Some p \<and> boot (hs (i + k)) = boot (hs i)"
  using assms(2)
proof (induction k)
  case (Suc k)
  have "procs (hs (Suc (i + k))) pid = Some p" using Suc.prems by simp
  then have "procs (hs (i + k)) pid = Some p" "boot (hs (Suc (i + k))) = boot (hs (i + k))"
    using assms(1,3) unfolding quiet_def by blast+
  with Suc.IH show ?case by simp
qed simp

text \<open>The only process in the group is the recorded one or the one of the pid file.\<close>

definition tracked :: "Manager \<Rightarrow> 'h \<Rightarrow> Sandbox \<Rightarrow> bool" where
  "tracked m h s \<longleftrightarrow> (\<forall>pid p. procs h pid = Some p \<and> in_group (Sandbox_ID s) p \<longrightarrow> 1 < pid
     \<and> (Sandbox_PID s = pid \<and> owner h s \<or> \<not> owner h s \<and> pidfile m s h pid))"

lemma Discover_tracked:
  assumes "valid h" "processRoot m = root" "Discover m (rd h) s = (s', None)" "tracked m h s"
    and "procs h pid = Some p" "in_group (Sandbox_ID s) p"
  shows "Sandbox_PID s' = pid \<and> owner h s' \<and> Sandbox_ID s' = Sandbox_ID s"
proof (cases "owner h s")
  case True
  then show ?thesis
    using assms Discover_cases [OF assms(1,2,3)] unfolding tracked_def by blast
next
  case False
  then have f: "pidfile m s h pid" "1 < pid" using assms(4,5,6) unfolding tracked_def by blast+
  from Discover_adopts [OF assms(1,2) False f(1) assms(5) f(2) assms(6)] assms(3)
  have "s' = adopted h pid p s" by simp
  then show ?thesis using owner_adopted [OF assms(5), of s] f(2) assms(6) by (simp add: adopted_def)
qed

lemma owner_persists:
  assumes "quiet (Sandbox_ID s) hs" "owner (hs 0) s" "procs (hs k) (Sandbox_PID s) = Some p" "in_group (Sandbox_ID s) p"
  shows "owner (hs k) s"
  using assms quiet_back [of "Sandbox_ID s" hs 0 k "Sandbox_PID s" p] by (auto simp: owner_def)

lemma Kill_signals:
  assumes "quiet (Sandbox_ID s) hs" "processRoot m = root" "Kill m (\<lambda>k. rd (hs k)) env s = Some (Some pid, r)"
  shows "\<exists>p. procs (hs 2) pid = Some p \<and> in_group (Sandbox_ID s) p \<and> 1 < pid"
proof -
  have v: "valid (hs k)" for k using assms(1) by (simp add: quiet_def)
  obtain s' where d: "Discover m (rd (hs 0)) s = (s', None)"
    using assms(3) by (auto simp: Kill_def split: prod.splits option.splits)
  have "owner (hs 2) s'" "Sandbox_PID s' = pid"
    using assms(3) d ownedAlive [OF v assms(2)] by (auto simp: Kill_def numeral_2_eq_2 split: sum.splits if_splits)
  moreover have "Sandbox_ID s' = Sandbox_ID s"
    using Discover_cases [OF v assms(2) d] by (auto simp: forget_pid_def adopted_def)
  ultimately show ?thesis by (auto simp: owner_def)
qed

lemma Kill_nil:
  assumes "quiet (Sandbox_ID s) hs" "processRoot m = root" "root = ''/proc''" "tracked m (hs 0) s"
    and "Kill m (\<lambda>k. rd (hs k)) env s = Some (sig, None)"
    and esrch: "\<And>s'. ke_open env = Some ESRCH \<Longrightarrow> Discover m (rd (hs 0)) s = (s', None) \<Longrightarrow> procs (hs 2) (Sandbox_PID s') = None"
  shows "\<exists>k. \<forall>pid p. procs (hs k) pid = Some p \<longrightarrow> \<not> in_group (Sandbox_ID s) p"
proof -
  have v: "valid (hs k)" for k using assms(1) by (simp add: quiet_def)
  obtain s' where d: "Discover m (rd (hs 0)) s = (s', None)"
    using assms(5) by (auto simp: Kill_def split: prod.splits option.splits)
  have al: "Alive (rd (hs k)) s' \<longleftrightarrow> owner (hs k) s'" for k
    using alive_iff [OF v] assms(3) by (simp add: Alive_def)
  have "\<exists>k. \<not> owner (hs k) s'"
  proof (rule ccontr)
    assume "\<nexists>k. \<not> owner (hs k) s'"
    then have o: "owner (hs k) s'" for k by blast
    have "ke_open env \<noteq> Some ESRCH" using esrch [of s'] d o [of 2] by (auto simp: owner_def)
    moreover have "kill_wait (\<lambda>k. rd (hs (3 + k))) (ke_ctx env) s' 0 \<noteq> Some None"
      using kill_wait_nil [of "\<lambda>k. rd (hs (3 + k))" "ke_ctx env" s' 0] al o by blast
    ultimately show False
      using assms(5) d ownedAlive [OF v assms(2)] o by (auto simp: Kill_def split: if_splits)
  qed
  then obtain k where k: "\<not> owner (hs k) s'" by blast
  have False if "procs (hs k) pid = Some p" "in_group (Sandbox_ID s) p" for pid p
  proof -
    have "procs (hs 0) pid = Some p" using quiet_back [OF assms(1), of 0 k pid p] that by simp
    from Discover_tracked [OF v assms(2) d assms(4) this that(2)]
    have "Sandbox_PID s' = pid" "owner (hs 0) s'" "Sandbox_ID s' = Sandbox_ID s" by auto
    with owner_persists [of s' hs k p] assms(1) that k show False by simp
  qed
  then show ?thesis by blast
qed

lemma Kill_returns:
  assumes "ke_ctx env k \<noteq> None"
  shows "\<exists>out. Kill m obs env s = Some out"
  using kill_wait_total [of "\<lambda>k. obs (3 + k)" 0 k _ "ke_ctx env"] assms
  by (auto simp: Kill_def split: prod.split option.split sum.split)

end

section \<open>The host\<close>

text \<open>A host: its boot identifier, its processes and the files outside of \<open>/proc\<close>.\<close>

record vmhost =
  vh_boot :: string
  vh_procs :: "int \<Rightarrow> process option"
  vh_files :: "string \<Rightarrow> string option"

definition host_ok :: "vmhost \<Rightarrow> bool" where
  "host_ok h \<longleftrightarrow> boot_ok (vh_boot h) \<and> (\<forall>pid p. vh_procs h pid = Some p \<longrightarrow> in_int64 pid \<and> proc_ok p)"

definition proc_entry :: "vmhost \<Rightarrow> string \<Rightarrow> string result" where
  "proc_entry h path =
     (let (d, f, ok) = Cut path (CHR ''/'') in
      case Atoi d of
        Inl e \<Rightarrow> Inl ErrNotExist
      | Inr pid \<Rightarrow>
          (case vh_procs h pid of
             None \<Rightarrow> Inl ErrNotExist
           | Some p \<Rightarrow>
               if Itoa pid \<noteq> d then Inl ErrNotExist
               else if f = ''stat'' then Inr (stat_line pid p)
               else if f = ''cgroup'' then Inr (cgroup_file p) else Inl ErrNotExist))"

definition read_file :: "vmhost \<Rightarrow> reader" where
  "read_file h path =
     (if path = ''/proc/sys/kernel/random/boot_id'' then Inr (vh_boot h @ [CHR 0x0A])
      else if HasPrefix path ''/proc/'' then proc_entry h (drop 6 path)
      else case vh_files h path of None \<Rightarrow> Inl ErrNotExist | Some c \<Rightarrow> Inr c)"

lemma itoa_nat_inj: "itoa_nat a = itoa_nat b \<Longrightarrow> a = b"
  using uint_loop_itoa [of a "max a b" "[]"] uint_loop_itoa [of b "max a b" "[]"] by simp

lemma hd_Itoa: "hd (Itoa a) = CHR ''-'' \<longleftrightarrow> a < 0"
  using hd_itoa_nat [of "nat a"] digit_not_sign by (auto simp: Itoa_def)

lemma Itoa_inject: "Itoa a = Itoa b \<Longrightarrow> a = b"
proof -
  assume e: "Itoa a = Itoa b"
  then have "a < 0 \<longleftrightarrow> b < 0" using hd_Itoa by metis
  with e show ?thesis
    using itoa_nat_inj [of "nat (- a)" "nat (- b)"] itoa_nat_inj [of "nat a" "nat b"] by (simp add: Itoa_def split: if_splits)
qed

lemma Itoa_chars: "c \<in> set (Itoa i) \<Longrightarrow> is_digit c \<or> c = CHR ''-''"
  using itoa_nat_digits by (auto simp: Itoa_def split: if_splits)

lemma plain_Itoa: "plain_elem (Itoa i)"
proof -
  have "CHR ''/'' \<notin> set (Itoa i)" "CHR ''.'' \<notin> set (Itoa i)"
    using Itoa_chars by (auto simp: is_digit_def dest!: Itoa_chars)
  moreover have "Itoa i \<noteq> []" by (simp add: Itoa_def)
  ultimately show ?thesis by (auto simp: plain_elem_def)
qed

lemma proc_path:
  assumes "plain_elem f"
  shows "path_Join [''/proc'', Itoa pid, f] = ''/proc/'' @ Itoa pid @ ''/'' @ f"
proof -
  have l: "list_all plain_elem [Itoa pid, f]" using assms plain_Itoa by simp
  note b = path_Join_below [of "''/proc''" "[Itoa pid, f]", OF _ _ l, simplified]
  have "path_Join [''/proc'', Itoa pid, f] = abs_path (clean_elems (path_Join [''/proc'', Itoa pid, f]))"
    using b Clean_abs by metis
  also have "\<dots> = abs_path [''proc'', Itoa pid, f]" using b(1) by (simp add: clean_elems_def)
  finally show ?thesis by (simp add: abs_path_def)
qed

lemma proc_entry_pid:
  assumes "host_ok h"
  shows "proc_entry h (Itoa pid @ ''/'' @ f) =
    (case vh_procs h pid of None \<Rightarrow> Inl ErrNotExist
     | Some p \<Rightarrow> if f = ''stat'' then Inr (stat_line pid p) else if f = ''cgroup'' then Inr (cgroup_file p) else Inl ErrNotExist)"
proof -
  have c: "Cut (Itoa pid @ CHR ''/'' # f) (CHR ''/'') = (Itoa pid, f, True)"
    using plain_Itoa [of pid] by (simp add: plain_elem_def)
  show ?thesis
  proof (cases "vh_procs h pid")
    case None
    then have "vh_procs h q = None" if "Itoa q = Itoa pid" for q
      using Itoa_inject [OF that] by simp
    then show ?thesis
      using c None by (cases "Atoi (Itoa pid)"; cases "vh_procs h (projr (Atoi (Itoa pid)))") (auto simp: proc_entry_def)
  next
    case (Some p)
    then have "Atoi (Itoa pid) = Inr pid" using assms by (simp add: host_ok_def)
    with Some c show ?thesis by (simp add: proc_entry_def)
  qed
qed

lemma read_proc:
  assumes "plain_elem f"
  shows "read_file h (path_Join [''/proc'', Itoa pid, f]) = proc_entry h (Itoa pid @ ''/'' @ f)"
proof -
  have "CHR ''s'' \<notin> set (Itoa pid)" by (auto simp: is_digit_def dest!: Itoa_chars)
  moreover obtain c cs where i: "Itoa pid = c # cs" using plain_Itoa [of pid] by (cases "Itoa pid") (auto simp: plain_elem_def)
  ultimately have "CHR ''s'' \<noteq> c" by auto
  then have "''/proc/'' @ Itoa pid @ ''/'' @ f \<noteq> ''/proc/sys/kernel/random/boot_id''" using i by simp
  then show ?thesis
    unfolding proc_path [OF assms] read_file_def by (simp add: HasPrefix_def)
qed

interpretation host: procfs host_ok read_file "''/proc''" vh_boot vh_procs
proof (unfold_locales, goal_cases)
  case (1 h)
  show ?case by (simp add: path_Join_def Clean_def read_file_def)
next
  case (2 h)
  then show ?case by (simp add: host_ok_def)
next
  case (3 h pid)
  then show ?case using read_proc [of "''stat''" h pid] proc_entry_pid [of h pid "''stat''"] by (simp add: plain_elem_def split: option.split)
next
  case (4 h pid)
  then show ?case using read_proc [of "''cgroup''" h pid] proc_entry_pid [of h pid "''cgroup''"] by (simp add: plain_elem_def split: option.split)
next
  case (5 h pid p)
  then show ?case by (simp add: host_ok_def)
qed

text \<open>The assumptions on a run of the host, written out.\<close>

definition group_pids :: "vmhost \<Rightarrow> string \<Rightarrow> int set" where
  "group_pids h sid = {pid. \<exists>p. vh_procs h pid = Some p \<and> in_group sid p}"

definition quiet_run :: "string \<Rightarrow> (nat \<Rightarrow> vmhost) \<Rightarrow> bool" where
  "quiet_run sid hs \<longleftrightarrow> (\<forall>k. host_ok (hs k) \<and> vh_boot (hs (Suc k)) = vh_boot (hs k)
     \<and> (\<forall>pid p. vh_procs (hs (Suc k)) pid = Some p \<and> in_group sid p \<longrightarrow> vh_procs (hs k) pid = Some p))"

definition pid_record :: "Manager \<Rightarrow> string \<Rightarrow> vmhost \<Rightarrow> int result" where
  "pid_record m sid h =
     (case read_file h (path_Join [Jail m sid, Base (Manager_Firecracker m) @ ''.pid'']) of
        Inl e \<Rightarrow> Inl e | Inr raw \<Rightarrow> Atoi (TrimSpace raw))"

definition vmm_tracked :: "Manager \<Rightarrow> vmhost \<Rightarrow> Sandbox \<Rightarrow> bool" where
  "vmm_tracked m h s \<longleftrightarrow> (\<forall>pid \<in> group_pids h (Sandbox_ID s). 1 < pid
     \<and> (Sandbox_PID s = pid \<and> Alive (read_file h) s \<or> \<not> Alive (read_file h) s \<and> pid_record m (Sandbox_ID s) h = Inr pid))"

lemma quiet_run_host: "quiet_run sid hs \<longleftrightarrow> host.quiet sid hs"
  by (simp add: quiet_run_def host.quiet_def)

lemma pidfile_host: "host.pidfile m s h pid \<longleftrightarrow> pid_record m (Sandbox_ID s) h = Inr pid"
  by (auto simp: host.pidfile_def pid_record_def split: sum.split)

lemma Alive_owner: "host_ok h \<Longrightarrow> Alive (read_file h) s \<longleftrightarrow> host.owner h s"
  by (simp add: Alive_def host.alive_iff)

lemma vmm_tracked_host: "host_ok h \<Longrightarrow> vmm_tracked m h s \<longleftrightarrow> host.tracked m h s"
  by (auto simp: vmm_tracked_def host.tracked_def Alive_owner pidfile_host group_pids_def)

definition ready_at :: "(nat \<Rightarrow> GuestStatus result) \<Rightarrow> (nat \<Rightarrow> reader) \<Rightarrow> Sandbox \<Rightarrow> nat \<Rightarrow> bool" where
  "ready_at calls obs s k \<longleftrightarrow> (\<exists>n \<ge> k. \<exists>st. calls n = Inr st \<and> GuestStatus_Protocol st = Protocol \<and> GuestStatus_ID st = Sandbox_ID s
     \<and> GuestStatus_Generation st = Sandbox_Generation s \<and> (\<forall>j. k \<le> j \<and> j < n \<longrightarrow> isl (calls j) \<and> Alive (obs j) s))"

lemma ready_at_Suc: "ready_at calls obs s (Suc k) \<Longrightarrow> isl (calls k) \<Longrightarrow> Alive (obs k) s \<Longrightarrow> ready_at calls obs s k"
  unfolding ready_at_def by (metis Suc_leD le_neq_implies_less less_eq_Suc_le)

lemma ready_at_now:
  "calls k = Inr st \<Longrightarrow> GuestStatus_Protocol st = Protocol \<Longrightarrow> GuestStatus_ID st = Sandbox_ID s \<Longrightarrow>
   GuestStatus_Generation st = Sandbox_Generation s \<Longrightarrow> ready_at calls obs s k"
  unfolding ready_at_def by (rule exI [of _ k]) auto

lemma Ready_loop_result:
  assumes "Ready_loop calls obs ctx s k = Some None"
  shows "ready_at calls obs s k"
proof -
  have "r = None \<longrightarrow> ready_at calls obs s k" if "Ready_loop calls obs ctx s k = Some r" for r
  proof (rule Ready_loop.raw_induct [OF _ that, where P = "\<lambda>calls obs ctx s k r. r = None \<longrightarrow> ready_at calls obs s k"])
    fix rl calls obs ctx s k r
    assume IH: "\<And>calls obs ctx s k r. rl calls obs ctx s k = Some r \<Longrightarrow> r = None \<longrightarrow> ready_at calls obs s k"
      and st: "(if \<not> isl (calls k) then
        Some (let st = projr (calls k) in
          if GuestStatus_Protocol st \<noteq> Protocol \<or> GuestStatus_ID st \<noteq> Sandbox_ID s \<or> GuestStatus_Generation st \<noteq> Sandbox_Generation s
          then Some (Errorf ''guest identity/protocol mismatch'') else None)
      else if \<not> Alive (obs k) s then Some (Some (Errorf ''VMM exited before guest ready; see console.log''))
      else if ctx k then Some (Some (Errorf ''guest readiness timeout''))
      else rl calls obs ctx s (Suc k)) = Some r"
    show "r = None \<longrightarrow> ready_at calls obs s k"
    proof
      assume r: "r = None"
      show "ready_at calls obs s k"
      proof (cases "calls k")
        case (Inr g)
        with st r show ?thesis by (auto simp: Let_def split: if_splits intro: ready_at_now)
      next
        case (Inl e)
        with st r have "Alive (obs k) s" "rl calls obs ctx s (Suc k) = Some None" by (auto split: if_splits)
        with IH Inl show ?thesis by (auto intro: ready_at_Suc)
      qed
    qed
  qed
  with assms show ?thesis by blast
qed

lemma Ready_loop_total: "ctx (k + n) \<Longrightarrow> \<exists>r. Ready_loop calls obs ctx s k = Some r"
proof (induction n arbitrary: k)
  case 0
  then show ?case by (subst Ready_loop.simps) simp
next
  case (Suc n)
  then have "\<exists>r. Ready_loop calls obs ctx s (Suc k) = Some r" by simp
  then show ?case by (subst Ready_loop.simps) simp
qed

text \<open>A concrete host: one virtual machine, whose process carries a misleading name, with its pid
  file; and a run in which it disappears after the signal.\<close>

definition demo_process :: process where
  "demo_process = \<lparr>p_comm = ''x) R 1'', p_fields = replicate 19 ''1'' @ [''42'', ''0''], p_cgroup = [(''0'', [], ''/niflhel/a'')]\<rparr>"

definition demo_manager :: Manager where
  "demo_manager = \<lparr>Manager_Root = ''/v'', Manager_Firecracker = ''/bin/fc'', Manager_Jailer = ''/bin/jailer'', Manager_Storage = ''/v'', Manager_procRoot = []\<rparr>"

definition demo_host :: "bool \<Rightarrow> vmhost" where
  "demo_host on = \<lparr>vh_boot = ''b7'', vh_procs = (\<lambda>pid. if on \<and> pid = 7 then Some demo_process else None),
     vh_files = [''/v/jailer/fc/a/root/fc.pid'' \<mapsto> ''7'']\<rparr>"

definition demo_sandbox :: Sandbox where
  "demo_sandbox = \<lparr>Sandbox_ID = ''a'', Sandbox_Name = ''n'', Sandbox_Spec = DefaultSpec,
     Sandbox_Process = \<lparr>Process_Args = [], Process_Env = [], Process_User = [], Process_Cwd = [], Process_StopSignal = [], Process_TTY = False, Process_Interactive = False\<rparr>,
     Sandbox_ImageDigest = [], Sandbox_BaseDigest = [], Sandbox_State = ''running'', Sandbox_Reason = [], Sandbox_Warnings = [],
     Sandbox_Generation = 1, Sandbox_Created = 0, Sandbox_Updated = 0, Sandbox_Exit = None, Sandbox_PID = 0, Sandbox_PIDStart = [],
     Sandbox_GuestMemory = 0, Sandbox_Slot = 1, Sandbox_VMResourcesReleased = False\<rparr>"

lemma demo_ok: "host_ok (demo_host on)"
  by (auto simp: host_ok_def demo_host_def demo_process_def boot_ok_def proc_ok_def field_char_def is_alnum_def in_int64_def max_int64_def list_all_iff split: if_splits)

lemma demo_run: "quiet_run ''a'' (\<lambda>k. demo_host (k < 4))"
  unfolding quiet_run_def using demo_ok by (auto simp: demo_host_def split: if_splits)

lemma demo_root: "processRoot demo_manager = ''/proc''"
  by (simp add: processRoot_def demo_manager_def)

lemma demo_jail: "Jail demo_manager ''a'' = ''/v/jailer/fc/a/root''"
  by (simp add: Jail_def demo_manager_def Base_def path_Join_def Clean_def)

lemma demo_pidfile: "pid_record demo_manager ''a'' (demo_host True) = Inr 7"
proof -
  have "path_Join [Jail demo_manager ''a'', Base (Manager_Firecracker demo_manager) @ ''.pid''] = ''/v/jailer/fc/a/root/fc.pid''"
    unfolding demo_jail by (simp add: demo_manager_def Base_def path_Join_def Clean_def)
  then have "pid_record demo_manager ''a'' (demo_host True) = Atoi (TrimSpace ''7'')"
    unfolding pid_record_def by (simp add: read_file_def HasPrefix_def demo_host_def)
  also have "TrimSpace ''7'' = Itoa 7"
    by (simp add: TrimSpace_def is_space_def Itoa_def itoa_nat.simps digit_char_def char_of_def bit_0)
  also have "Atoi (Itoa 7) = Inr 7" by (simp add: in_int64_def max_int64_def)
  finally show ?thesis .
qed

lemma demo_dead: "\<not> Alive (read_file (demo_host True)) demo_sandbox"
  by (simp add: Alive_def aliveAt_def demo_sandbox_def)

lemma demo_discover:
  "Discover demo_manager (read_file (demo_host True)) demo_sandbox = (host.adopted (demo_host True) 7 demo_process demo_sandbox, None)"
proof (rule host.Discover_adopts [OF demo_ok demo_root])
  show "\<not> host.owner (demo_host True) demo_sandbox" using demo_dead Alive_owner [OF demo_ok] by blast
  show "host.pidfile demo_manager demo_sandbox (demo_host True) 7"
    using demo_pidfile by (simp add: pidfile_host demo_sandbox_def)
qed (simp_all add: demo_host_def demo_sandbox_def demo_process_def in_group_def)

section \<open>Properties\<close>

text \<open>C22. A sandbox counts as alive exactly when the process its record names exists on the current
  boot with the recorded start time and sits in the control group of that sandbox, whatever name
  the process gave itself: the files of \<open>/proc\<close> are parsed back to the process they show.\<close>

theorem Alive_identity:
  assumes "host_ok h"
  shows "Alive (read_file h) s \<longleftrightarrow> 1 < Sandbox_PID s \<and> Sandbox_PIDStart s \<noteq> [] \<and>
    (\<exists>p. vh_procs h (Sandbox_PID s) = Some p \<and> identity (vh_boot h) s p \<and> in_group (Sandbox_ID s) p)"
  using Alive_owner [OF assms] by (simp add: host.owner_def)

theorem Alive_identity_witness:
  "Alive (read_file (demo_host True)) (demo_sandbox\<lparr>Sandbox_PID := 7, Sandbox_PIDStart := ''b7:42''\<rparr>)
   \<and> \<not> Alive (read_file (demo_host True)) (demo_sandbox\<lparr>Sandbox_PID := 7, Sandbox_PIDStart := ''b6:42''\<rparr>)"
  unfolding Alive_identity [OF demo_ok [of True]]
  by (simp add: demo_host_def demo_sandbox_def demo_process_def identity_def p_start_def in_group_def nth_append)

text \<open>C23. Discovery adopts only owned processes: when it succeeds, a live record is kept as it is;
  otherwise the record names the process of the jailer's pid file, with its identity read from
  the host and a seat in the control group of the sandbox, or no process at all.  Nothing else
  of the record changes.\<close>

theorem Discover_adopts_owned:
  assumes "host_ok h" "processRoot m = ''/proc''" "Discover m (read_file h) s = (s', None)"
  shows "(Alive (read_file h) s \<longrightarrow> s' = s)
    \<and> (\<not> Alive (read_file h) s \<longrightarrow> s' = forget_pid s \<or>
        (\<exists>pid p. pid_record m (Sandbox_ID s) h = Inr pid \<and> pid \<in> group_pids h (Sandbox_ID s) \<and> vh_procs h pid = Some p
           \<and> s' = s\<lparr>Sandbox_PID := pid, Sandbox_PIDStart := vh_boot h @ '':'' @ p_start p\<rparr> \<and> Alive (read_file h) s'))"
proof (cases "Alive (read_file h) s")
  case True
  then show ?thesis
    using host.Discover_cases [OF assms] Alive_owner [OF assms(1)] by blast
next
  case False
  then have o: "\<not> host.owner h s" using Alive_owner [OF assms(1)] by blast
  show ?thesis
  proof (cases "s' = forget_pid s")
    case no: False
    with o obtain pid p where p: "host.pidfile m s h pid" "vh_procs h pid = Some p" "1 < pid" "in_group (Sandbox_ID s) p"
      "s' = host.adopted h pid p s"
      using host.Discover_cases [OF assms] by blast
    then have "host.owner h s'" by (simp add: host.owner_adopted)
    then have "Alive (read_file h) s'" "pid \<in> group_pids h (Sandbox_ID s)"
      using Alive_owner [OF assms(1)] p by (auto simp: group_pids_def)
    with False p show ?thesis unfolding pidfile_host host.adopted_def by blast
  qed (use False in blast)
qed

theorem Discover_adopts_owned_witness:
  "\<exists>s'. Discover demo_manager (read_file (demo_host True)) demo_sandbox = (s', None) \<and> Sandbox_PID s' = 7 \<and> Alive (read_file (demo_host True)) s'"
proof -
  let ?s = "host.adopted (demo_host True) 7 demo_process demo_sandbox"
  have p: "Sandbox_PID ?s = 7" "?s \<noteq> forget_pid demo_sandbox"
    by (simp_all only: host.adopted_def forget_pid_def Sandbox.simps demo_sandbox_def) simp
  have "Alive (read_file (demo_host True)) ?s"
    using Discover_adopts_owned [OF demo_ok demo_root demo_discover] demo_dead p(2) by blast
  with demo_discover p(1) show ?thesis by blast
qed

text \<open>C24. Killing is confined and complete.  The signal goes only to a process that, with the process
  descriptor already open, was in the control group of the sandbox.  If the only process of that
  group is the recorded one or the one of the pid file, and nothing enters the group meanwhile,
  then \<open>Kill\<close> returns nil only when the group has become empty.  It returns whenever its context
  ends.\<close>

theorem Kill_confined_complete:
  assumes "quiet_run (Sandbox_ID s) hs" "processRoot m = ''/proc''"
  shows "(\<forall>pid r. Kill m (\<lambda>k. read_file (hs k)) env s = Some (Some pid, r) \<longrightarrow> 1 < pid \<and> pid \<in> group_pids (hs 2) (Sandbox_ID s))
    \<and> (\<forall>sig. Kill m (\<lambda>k. read_file (hs k)) env s = Some (sig, None) \<and> vmm_tracked m (hs 0) s
         \<and> (ke_open env = Some ESRCH \<longrightarrow> vh_procs (hs 2) (Sandbox_PID (fst (Discover m (read_file (hs 0)) s))) = None)
         \<longrightarrow> (\<exists>k. group_pids (hs k) (Sandbox_ID s) = {}))
    \<and> ((\<exists>k. ke_ctx env k \<noteq> None) \<longrightarrow> (\<exists>out. Kill m (\<lambda>k. read_file (hs k)) env s = Some out))"
proof (intro conjI allI impI)
  note q = assms(1) [unfolded quiet_run_host]
  have v: "host_ok (hs 0)" using assms(1) unfolding quiet_run_def by blast
  fix pid r
  assume "Kill m (\<lambda>k. read_file (hs k)) env s = Some (Some pid, r)"
  from host.Kill_signals [OF q assms(2) this]
  show "1 < pid" "pid \<in> group_pids (hs 2) (Sandbox_ID s)" by (auto simp: group_pids_def)
next
  note q = assms(1) [unfolded quiet_run_host]
  have v: "host_ok (hs 0)" using assms(1) unfolding quiet_run_def by blast
  fix sig
  assume k: "Kill m (\<lambda>k. read_file (hs k)) env s = Some (sig, None) \<and> vmm_tracked m (hs 0) s
         \<and> (ke_open env = Some ESRCH \<longrightarrow> vh_procs (hs 2) (Sandbox_PID (fst (Discover m (read_file (hs 0)) s))) = None)"
  then have t: "host.tracked m (hs 0) s" using vmm_tracked_host [OF v] by blast
  have "vh_procs (hs 2) (Sandbox_PID s') = None" if "ke_open env = Some ESRCH" "Discover m (read_file (hs 0)) s = (s', None)" for s'
    using k that by simp
  from host.Kill_nil [OF q assms(2) refl t _ this] k
  have "\<exists>k. \<forall>pid p. vh_procs (hs k) pid = Some p \<longrightarrow> \<not> in_group (Sandbox_ID s) p" by blast
  then show "\<exists>k. group_pids (hs k) (Sandbox_ID s) = {}" by (auto simp: group_pids_def)
next
  assume "\<exists>k. ke_ctx env k \<noteq> None"
  then show "\<exists>out. Kill m (\<lambda>k. read_file (hs k)) env s = Some out"
    using host.Kill_returns [of env _ m "\<lambda>k. read_file (hs k)" s] by blast
qed

theorem Kill_confined_complete_witness:
  "\<exists>out. Kill demo_manager (\<lambda>k. read_file (demo_host (k < 4))) \<lparr>ke_open = None, ke_signal = None, ke_ctx = (\<lambda>k. Some ErrNotExist)\<rparr> demo_sandbox = Some out"
  using Kill_confined_complete [of demo_sandbox "\<lambda>k. demo_host (k < 4)" demo_manager "\<lparr>ke_open = None, ke_signal = None, ke_ctx = (\<lambda>k. Some ErrNotExist)\<rparr>"]
    demo_run by (simp add: demo_sandbox_def demo_manager_def processRoot_def)

text \<open>C25. The daemon talks only to the guest it booted: \<open>Ready\<close> succeeds only after a status answer with
  the protocol, the identity and the generation of this sandbox, the virtual machine having been
  alive after every failed attempt before; and it returns once its context ends.\<close>

theorem Ready_identity:
  "(Ready client calls obs ctx s = Some None \<longrightarrow>
      (\<exists>n st. calls n = Inr st \<and> GuestStatus_Protocol st = Protocol \<and> GuestStatus_ID st = Sandbox_ID s
         \<and> GuestStatus_Generation st = Sandbox_Generation s \<and> (\<forall>j < n. isl (calls j) \<and> Alive (obs j) s)))
    \<and> ((\<exists>k. ctx k) \<longrightarrow> (\<exists>r. Ready client calls obs ctx s = Some r))"
proof (cases client)
  case (Inr u)
  then show ?thesis
    using Ready_loop_result [of calls obs ctx s 0] Ready_loop_total [of ctx 0 _ calls obs s]
    unfolding Ready_def ready_at_def by auto
qed (simp add: Ready_def)

theorem Ready_identity_witness:
  "\<exists>r. Ready (Inr ()) (\<lambda>k. Inl ErrNotExist) (\<lambda>k. read_file (demo_host True)) (\<lambda>k. k = 3) demo_sandbox = Some r"
  using Ready_identity [of "Inr ()" "\<lambda>k. Inl ErrNotExist" "\<lambda>k. read_file (demo_host True)" "\<lambda>k. k = 3" demo_sandbox] by simp

end
