(* ===== verification/Artifacts.thy ===== *)
theory Artifacts
  imports Api
begin

text \<open>
  The records of images and base bundles that the daemon passes around:
  \<open>Descriptor\<close> and \<open>Image\<close> of src/internal/oci/store.go, \<open>Config\<close>, \<open>Signed\<close> and \<open>Bundle\<close> of
  src/internal/base/base.go.
\<close>

record Descriptor =
  Descriptor_Digest :: string
  Descriptor_Size :: int
  Descriptor_MediaType :: string

record Image =
  Image_Ref :: string
  Image_Digest :: string
  Image_Config :: ImageConfig
  Image_Layers :: "Descriptor list"
  Image_DiffIDs :: "string list"
  Image_Manifest :: string

record BaseConfig =
  BaseConfig_SchemaVersion :: int
  BaseConfig_OS :: string
  BaseConfig_Architecture :: string
  BaseConfig_AgentProtocol :: int
  BaseConfig_InitPath :: string
  BaseConfig_Runtime :: string
  BaseConfig_GuestReserveMiB :: int
  BaseConfig_FirecrackerVersions :: "string list"
  BaseConfig_Kernel :: Descriptor
  BaseConfig_RootFS :: Descriptor

record Signed =
  Signed_Config :: BaseConfig
  Signed_KeyID :: string
  Signed_Signature :: string

record Bundle =
  Bundle_Ref :: string
  Bundle_Digest :: string
  Bundle_Signed :: Signed
  Bundle_KernelPath :: string
  Bundle_RootFSPath :: string

end
