(* ===== verification/Admission.thy ===== *)
theory Admission
  imports StateStore
begin

text \<open>
  Configuration and admission control of the daemon: src/internal/daemon/config.go and
  budget.go, and the checks that \<open>Create\<close> and \<open>Start\<close> of daemon.go make against the other
  sandboxes before they reserve a name, an address slot, host ports, volumes or memory.
  \<open>/proc/meminfo\<close> is an argument, the result of opening it.

  The theory shows that the slot search terminates with the least free slot, that the memory
  budget is computed without overflow, and what an admitted sandbox may share with the others.
\<close>

section \<open>Configuration\<close>

record DaemonConfig =
  DaemonConfig_Root :: string
  DaemonConfig_Socket :: string
  DaemonConfig_SocketGroup :: string
  DaemonConfig_Firecracker :: string
  DaemonConfig_Jailer :: string
  DaemonConfig_DefaultBase :: string
  DaemonConfig_TrustedKeys :: "string \<Rightarrow> string option"
  DaemonConfig_DNSUpstream :: string
  DaemonConfig_BootTimeoutSeconds :: int

definition DefaultConfig :: DaemonConfig where
  "DefaultConfig = \<lparr>DaemonConfig_Root = ''/var/lib/niflhel'', DaemonConfig_Socket = ''/run/niflhel/niflhel.sock'',
     DaemonConfig_SocketGroup = [], DaemonConfig_Firecracker = ''/usr/local/bin/firecracker'',
     DaemonConfig_Jailer = ''/usr/local/bin/jailer'', DaemonConfig_DefaultBase = [], DaemonConfig_TrustedKeys = Map.empty,
     DaemonConfig_DNSUpstream = ''1.1.1.1:53'', DaemonConfig_BootTimeoutSeconds = 60\<rparr>"

definition Config_Validate :: "DaemonConfig \<Rightarrow> error option" where
  "Config_Validate c =
     (if list_ex (\<lambda>p. \<not> IsAbs p) [DaemonConfig_Root c, DaemonConfig_Socket c, DaemonConfig_Firecracker c, DaemonConfig_Jailer c]
      then Some (Errorf ''configured paths must be absolute'')
      else if DaemonConfig_BootTimeoutSeconds c < 1 \<or> DaemonConfig_BootTimeoutSeconds c > 600
      then Some (Errorf ''invalid boot timeout'')
      else None)"

text \<open>\<open>unmarshal\<close> is \<open>json.Unmarshal\<close> into a configuration that already holds the defaults.\<close>

definition Load :: "(string \<Rightarrow> DaemonConfig \<Rightarrow> DaemonConfig \<times> error option) \<Rightarrow> string result \<Rightarrow> DaemonConfig \<times> error option" where
  "Load unmarshal file =
     (case file of
        Inl e \<Rightarrow> (DefaultConfig, Some e)
      | Inr b \<Rightarrow>
          (case unmarshal b DefaultConfig of
             (c, Some e) \<Rightarrow> (c, Some e)
           | (c, None) \<Rightarrow> (c, Config_Validate c)))"

section \<open>Memory\<close>

definition memoryBudget :: "int \<Rightarrow> int \<Rightarrow> error option" where
  "memoryBudget reserved available =
     (if available < 256 * MiB \<or> reserved > wrap64 (available - 256 * MiB)
      then Some (Errorf ''insufficient available host memory for reserved VM envelopes (including 256 MiB host reserve)'')
      else None)"

fun scan_meminfo :: "string list \<Rightarrow> int result" where
  "scan_meminfo [] = Inl (Errorf ''MemAvailable missing'')"
| "scan_meminfo (line # ls) =
     (let p = Fields line in
      if 2 \<le> length p \<and> p ! 0 = ''MemAvailable:'' then
        (case ParseInt (p ! 1) of
           Inl e \<Rightarrow> Inl (NumError (num_error_text ''ParseInt'' (p ! 1) e))
         | Inr n \<Rightarrow> Inr (wrap64 (n * 1024)))
      else scan_meminfo ls)"

definition availableMemory :: "string result \<Rightarrow> int result" where
  "availableMemory meminfo =
     (case meminfo of Inl e \<Rightarrow> Inl e | Inr text \<Rightarrow> scan_meminfo (Split text (CHR 0x0A)))"

section \<open>What a sandbox holds\<close>

definition reservesVMResources :: "Sandbox \<Rightarrow> bool" where
  "reservesVMResources v =
     (if Sandbox_State v \<in> {''starting'', ''running'', ''stopping''} then True
      else if Sandbox_State v = ''failed'' then \<not> Sandbox_VMResourcesReleased v
      else False)"

section \<open>Admission of a new sandbox\<close>

definition host_ports :: "Spec \<Rightarrow> int list" where
  "host_ports s = map Port_HostPort (Spec_Ports s)"

text \<open>The loop of \<open>Create\<close> over the existing sandboxes, with the first conflict it reports.\<close>

fun create_conflict :: "Spec \<Rightarrow> Sandbox list \<Rightarrow> error option" where
  "create_conflict s [] = None"
| "create_conflict s (x # xs) =
     (if Sandbox_Name x = Spec_Name s \<and> Spec_Name s \<noteq> [] then Some (Errorf ''name already exists'')
      else case find (\<lambda>p. p \<in> set (host_ports (Sandbox_Spec x))) (host_ports s) of
        Some p \<Rightarrow> Some (Errorf (''host port '' @ Itoa p @ '' is reserved''))
      | None \<Rightarrow> create_conflict s xs)"

function first_free :: "int list \<Rightarrow> int \<Rightarrow> int" where
  "first_free used slot = (if slot \<in> set used then first_free used (slot + 1) else slot)"
  by pat_completeness auto

termination
proof (relation "measure (\<lambda>(used, slot). card {x \<in> set used. slot \<le> x})")
  fix used :: "int list" and slot
  assume "slot \<in> set used"
  then have "{x \<in> set used. slot + 1 \<le> x} \<subseteq> {x \<in> set used. slot \<le> x} - {slot}" "slot \<in> {x \<in> set used. slot \<le> x}" by auto
  then have "{x \<in> set used. slot + 1 \<le> x} \<subset> {x \<in> set used. slot \<le> x}" by blast
  then show "((used, slot + 1), used, slot) \<in> measure (\<lambda>(used, slot). card {x \<in> set used. slot \<le> x})"
    by (simp add: psubset_card_mono)
qed simp

declare first_free.simps [simp del]

section \<open>Admission of a boot\<close>

definition mount_names :: "Spec \<Rightarrow> string list" where
  "mount_names s = map Mount_Name (Spec_Mounts s)"

text \<open>The loops of \<open>Start\<close> over the other sandboxes: the first volume that is in use, and the sum of
  the memory envelopes.\<close>

fun volume_conflict :: "Sandbox \<Rightarrow> Sandbox list \<Rightarrow> error option" where
  "volume_conflict v [] = None"
| "volume_conflict v (x # xs) =
     (if Sandbox_ID x = Sandbox_ID v \<or> \<not> reservesVMResources x then volume_conflict v xs
      else case find (\<lambda>m. m \<in> set (mount_names (Sandbox_Spec x))) (mount_names (Sandbox_Spec v)) of
        Some m \<Rightarrow> Some (Errorf (''volume '' @ m @ '' reserved by active or failed sandbox''))
      | None \<Rightarrow> volume_conflict v xs)"

definition envelope :: "Sandbox \<Rightarrow> int" where
  "envelope v = wrap64 (Sandbox_GuestMemory v + 64 * MiB)"

fun reserved_memory :: "int \<Rightarrow> Sandbox list \<Rightarrow> int" where
  "reserved_memory acc [] = acc"
| "reserved_memory acc (x # xs) =
     reserved_memory (if reservesVMResources x then wrap64 (acc + envelope x) else acc) xs"

definition budget_error :: "int \<Rightarrow> int result \<Rightarrow> error option" where
  "budget_error reserved available =
     (case available of Inl e \<Rightarrow> Some e | Inr a \<Rightarrow> memoryBudget reserved a)"

section \<open>Lemmas\<close>

lemma first_free_props:
  "first_free used slot \<notin> set used \<and> slot \<le> first_free used slot \<and> (\<forall>x. slot \<le> x \<and> x < first_free used slot \<longrightarrow> x \<in> set used)"
proof (induction used slot rule: first_free.induct)
  case (1 used slot)
  show ?case
  proof (cases "slot \<in> set used")
    case True
    then have e: "first_free used slot = first_free used (slot + 1)" by (subst first_free.simps) simp
    have "x \<in> set used" if "slot \<le> x" "x < first_free used (slot + 1)" for x
      using 1 [OF True] True that by (cases "x = slot") auto
    then show ?thesis using 1 [OF True] unfolding e by simp
  next
    case False
    then have "first_free used slot = slot" by (subst first_free.simps) simp
    with False show ?thesis by auto
  qed
qed

lemma find_shared: "find (\<lambda>p. p \<in> set ys) xs = None \<longleftrightarrow> set xs \<inter> set ys = {}"
  by (auto simp: find_None_iff)

lemma create_conflict_None:
  "create_conflict s all = None \<longleftrightarrow>
     (\<forall>x \<in> set all. (Spec_Name s = [] \<or> Sandbox_Name x \<noteq> Spec_Name s) \<and> set (host_ports s) \<inter> set (host_ports (Sandbox_Spec x)) = {})"
proof (induction all)
  case (Cons x all)
  then show ?case
    using find_shared [of "host_ports (Sandbox_Spec x)" "host_ports s"]
    by (cases "find (\<lambda>p. p \<in> set (host_ports (Sandbox_Spec x))) (host_ports s)") auto
qed simp

lemma volume_conflict_None:
  "volume_conflict v all = None \<longleftrightarrow>
     (\<forall>x \<in> set all. Sandbox_ID x \<noteq> Sandbox_ID v \<and> reservesVMResources x \<longrightarrow>
        set (mount_names (Sandbox_Spec v)) \<inter> set (mount_names (Sandbox_Spec x)) = {})"
proof (induction all)
  case (Cons x all)
  then show ?case
    using find_shared [of "mount_names (Sandbox_Spec x)" "mount_names (Sandbox_Spec v)"]
    by (cases "find (\<lambda>m. m \<in> set (mount_names (Sandbox_Spec x))) (mount_names (Sandbox_Spec v))") auto
qed simp

text \<open>The memory that a set of sandboxes holds, without machine arithmetic.\<close>

definition held_memory :: "Sandbox list \<Rightarrow> int" where
  "held_memory all = (\<Sum>x\<leftarrow>filter reservesVMResources all. Sandbox_GuestMemory x + 64 * MiB)"

lemma held_memory_simps [simp]:
  "held_memory [] = 0"
  "held_memory (x # xs) = (if reservesVMResources x then Sandbox_GuestMemory x + 64 * MiB else 0) + held_memory xs"
  by (simp_all add: held_memory_def)

lemma held_memory_bounds:
  assumes "\<forall>x \<in> set all. 0 \<le> Sandbox_GuestMemory x \<and> Sandbox_GuestMemory x \<le> 2 ^ 45"
  shows "0 \<le> held_memory all \<and> held_memory all \<le> int (length all) * (2 ^ 45 + 64 * MiB)"
  using assms
proof (induction all)
  case (Cons x xs)
  then have "0 \<le> held_memory xs" "held_memory xs \<le> int (length xs) * (2 ^ 45 + 64 * MiB)"
    "0 \<le> Sandbox_GuestMemory x" "Sandbox_GuestMemory x \<le> 2 ^ 45" by auto
  then show ?case by (simp add: MiB_def algebra_simps)
qed simp

lemma envelope_exact: "0 \<le> Sandbox_GuestMemory x \<Longrightarrow> Sandbox_GuestMemory x \<le> 2 ^ 45 \<Longrightarrow> envelope x = Sandbox_GuestMemory x + 64 * MiB"
  unfolding envelope_def by (rule wrap64_id) (simp add: in_int64_def max_int64_def MiB_def)

lemma reserved_memory_exact:
  assumes "\<forall>x \<in> set all. 0 \<le> Sandbox_GuestMemory x \<and> Sandbox_GuestMemory x \<le> 2 ^ 45"
    and "0 \<le> acc" "acc + held_memory all \<le> max_int64"
  shows "reserved_memory acc all = acc + held_memory all"
  using assms
proof (induction all arbitrary: acc)
  case (Cons x xs)
  have h: "0 \<le> held_memory xs" using held_memory_bounds [of xs] Cons.prems(1) by simp
  have e: "envelope x = Sandbox_GuestMemory x + 64 * MiB" "0 \<le> envelope x"
    using envelope_exact [of x] Cons.prems(1) by (simp_all add: MiB_def)
  show ?case
  proof (cases "reservesVMResources x")
    case True
    have "acc + envelope x \<le> max_int64" using Cons.prems(3) True e h by simp
    then have "wrap64 (acc + envelope x) = acc + envelope x"
      using Cons.prems(2) e(2) by (intro wrap64_id) (simp add: in_int64_def)
    then show ?thesis
      using Cons.IH [of "acc + envelope x"] Cons.prems True e by (simp add: add.assoc)
  next
    case False
    then show ?thesis using Cons.IH [of acc] Cons.prems by simp
  qed
qed simp

section \<open>Properties\<close>

text \<open>C26. The memory budget is exact: for at most 16000 sandboxes of at most 32 TiB, a boot that passes
  the budget leaves 256 MiB of the available memory after its own envelope and those of all
  sandboxes that hold resources, and one that is refused would not; no intermediate sum wraps
  around.\<close>

theorem memory_budget_exact:
  assumes "\<forall>x \<in> set (v # all). 0 \<le> Sandbox_GuestMemory x \<and> Sandbox_GuestMemory x \<le> 2 ^ 45" "length all \<le> 16000" "in_int64 a"
  shows "budget_error (reserved_memory (envelope v) all) (Inr a) = None \<longleftrightarrow>
    Sandbox_GuestMemory v + 64 * MiB + held_memory all + 256 * MiB \<le> a"
proof -
  have v: "envelope v = Sandbox_GuestMemory v + 64 * MiB" "0 \<le> Sandbox_GuestMemory v" "Sandbox_GuestMemory v \<le> 2 ^ 45"
    using envelope_exact [of v] assms(1) by simp_all
  have h: "0 \<le> held_memory all" "held_memory all \<le> int (length all) * (2 ^ 45 + 64 * MiB)"
    using held_memory_bounds [of all] assms(1) by simp_all
  have "int (length all) * (2 ^ 45 + 64 * MiB) \<le> 16000 * (2 ^ 45 + 64 * MiB)"
    using assms(2) by (intro mult_right_mono) (simp_all add: MiB_def)
  then have "envelope v + held_memory all \<le> max_int64"
    using h v by (simp add: max_int64_def MiB_def)
  then have r: "reserved_memory (envelope v) all = Sandbox_GuestMemory v + 64 * MiB + held_memory all"
    using reserved_memory_exact [of all "envelope v"] assms(1) v by (simp add: MiB_def)
  have w: "wrap64 (a - 256 * MiB) = a - 256 * MiB" if "256 * MiB \<le> a"
    using that assms(3) by (intro wrap64_id) (simp add: in_int64_def max_int64_def MiB_def)
  show ?thesis
  proof (cases "a < 256 * MiB")
    case True
    then show ?thesis using h v unfolding budget_error_def memoryBudget_def by (simp add: MiB_def)
  next
    case False
    then show ?thesis using w unfolding budget_error_def memoryBudget_def r by (simp add: not_less le_diff_eq)
  qed
qed

theorem memory_budget_exact_witness:
  "budget_error (reserved_memory (envelope v0) [v0\<lparr>Sandbox_State := ''running''\<rparr>]) (Inr (384 * MiB)) = None
   \<and> budget_error (reserved_memory (envelope v0) [v0\<lparr>Sandbox_State := ''running''\<rparr>]) (Inr (384 * MiB - 1)) \<noteq> None"
  using memory_budget_exact [of v0 "[v0\<lparr>Sandbox_State := ''running''\<rparr>]" "384 * MiB"]
    memory_budget_exact [of v0 "[v0\<lparr>Sandbox_State := ''running''\<rparr>]" "384 * MiB - 1"]
  by (simp add: v0_def reservesVMResources_def in_int64_def max_int64_def MiB_def)

end
