(* ===== verification/Lifecycle.thy ===== *)
theory Lifecycle
  imports Admission Artifacts Storage VmIdentity
begin

text \<open>
  The sandbox lifecycle of src/internal/daemon/daemon.go.  The struct \<open>Daemon\<close> is a record of its
  configuration, the metadata store, the maps it keeps in memory (monitors, DNS relays, port
  listeners) and the three parts of the host it drives: virtual machines (\<open>'h\<close>), network and
  sockets (\<open>'n\<close>), images and disks (\<open>'r\<close>).  The Go interfaces \<open>Backend\<close> and \<open>Network\<close> and the
  image stores are records of functions over those parts; \<open>Services\<close> collects them with the
  outcomes of the database statements (\<open>Svc_db\<close>), the clock and the fresh identifiers, each
  indexed by the number of store calls made so far, so that every call may fail on its own.

  A handler that runs under locks in several sections is one definition per section, composed
  as the code composes them: \<open>Create\<close> is \<open>Create_alloc\<close> and \<open>Create_prepare\<close>, \<open>Start\<close> is
  \<open>Start_admit\<close> and \<open>Start_boot\<close>.
\<close>

section \<open>Services\<close>

datatype answer = AnsNone | AnsStatus GuestStatus | AnsFrames "Frame list"

record 'h Backend =
  VM_Check :: "'h \<Rightarrow> error option"
  VM_Start :: "'h \<Rightarrow> Sandbox \<Rightarrow> Bundle \<Rightarrow> 'h \<times> (int \<times> string) result"
  VM_Ready :: "'h \<Rightarrow> Sandbox \<Rightarrow> 'h \<times> error option"
  VM_Client :: "'h \<Rightarrow> Sandbox \<Rightarrow> error option"
  VM_Kill :: "'h \<Rightarrow> Sandbox \<Rightarrow> 'h \<times> error option"
  VM_Remove :: "'h \<Rightarrow> Sandbox \<Rightarrow> 'h \<times> error option"
  VM_Call :: "'h \<Rightarrow> Sandbox \<Rightarrow> Request \<Rightarrow> 'h \<times> answer result"
  VM_Alive :: "'h \<Rightarrow> Sandbox \<Rightarrow> bool"
  VM_Await :: "'h \<Rightarrow> Sandbox \<Rightarrow> 'h"

text \<open>\<open>VM_Call\<close> is a call through the guest's client, \<open>VM_Await\<close> the host after \<open>finish\<close> has polled for
  the machine to exit.\<close>

record 'n Net =
  Net_Prepare :: "'n \<Rightarrow> Sandbox \<Rightarrow> 'n \<times> error option"
  Net_Remove :: "'n \<Rightarrow> Sandbox \<Rightarrow> 'n \<times> error option"
  Net_Listen :: "'n \<Rightarrow> Port \<Rightarrow> 'n \<times> error option"
  Net_Close :: "'n \<Rightarrow> Port \<Rightarrow> 'n"
  Net_DNS :: "'n \<Rightarrow> string \<Rightarrow> string \<Rightarrow> 'n \<times> error option"
  Net_StopDNS :: "'n \<Rightarrow> string \<Rightarrow> 'n"

record 'r Repo =
  Repo_PullImage :: "'r \<Rightarrow> string \<Rightarrow> string \<Rightarrow> 'r \<times> Image result"
  Repo_PullBase :: "'r \<Rightarrow> string \<Rightarrow> string \<Rightarrow> 'r \<times> Bundle result"
  Repo_GetBase :: "'r \<Rightarrow> string \<Rightarrow> Bundle result"
  Repo_Carrier :: "'r \<Rightarrow> string \<Rightarrow> Image \<Rightarrow> 'r \<times> error option"
  Repo_Disk :: "'r \<Rightarrow> string \<Rightarrow> int \<Rightarrow> string \<Rightarrow> 'r \<times> error option"
  Repo_MkdirAll :: "'r \<Rightarrow> string \<Rightarrow> 'r \<times> error option"
  Repo_MkdirTemp :: "'r \<Rightarrow> string \<Rightarrow> 'r \<times> string result"
  Repo_Remove :: "'r \<Rightarrow> string \<Rightarrow> 'r \<times> error option"
  Repo_RemoveAll :: "'r \<Rightarrow> string \<Rightarrow> 'r \<times> error option"
  Repo_SaveResult :: "'r \<Rightarrow> Sandbox \<Rightarrow> Exit option \<Rightarrow> 'r \<times> error option"

record ('h, 'n, 'r) Services =
  Svc_VM :: "'h Backend"
  Svc_Net :: "'n Net"
  Svc_Repo :: "'r Repo"
  Svc_db :: "nat \<Rightarrow> driver"
  Svc_now :: "nat \<Rightarrow> int"
  Svc_ID :: "nat \<Rightarrow> string"
  Svc_meminfo :: "nat \<Rightarrow> string result"

record ('h, 'n, 'r) Daemon =
  Daemon_Config :: DaemonConfig
  Daemon_Store :: Store
  Daemon_vm :: 'h
  Daemon_net :: 'n
  Daemon_repo :: 'r
  Daemon_monitors :: "string \<Rightarrow> int"
  Daemon_dns :: "string \<Rightarrow> string option"
  Daemon_ports :: "string \<Rightarrow> Port list"
  Daemon_calls :: nat

text \<open>The store through the daemon: the call number selects the outcome of its statements.\<close>

definition d_db :: "('h, 'n, 'r) Services \<Rightarrow> ('h, 'n, 'r) Daemon \<Rightarrow> driver" where
  "d_db svc d = Svc_db svc (Daemon_calls d)"

definition d_now :: "('h, 'n, 'r) Services \<Rightarrow> ('h, 'n, 'r) Daemon \<Rightarrow> int" where
  "d_now svc d = Svc_now svc (Daemon_calls d)"

definition called :: "('h, 'n, 'r) Daemon \<Rightarrow> ('h, 'n, 'r) Daemon" where
  "called d = d\<lparr>Daemon_calls := Suc (Daemon_calls d)\<rparr>"

definition d_Get :: "('h, 'n, 'r) Services \<Rightarrow> ('h, 'n, 'r) Daemon \<Rightarrow> string \<Rightarrow> ('h, 'n, 'r) Daemon \<times> Sandbox result" where
  "d_Get svc d ref = (called d, Get (d_db svc d) (Daemon_Store d) ref)"

definition d_List :: "('h, 'n, 'r) Services \<Rightarrow> ('h, 'n, 'r) Daemon \<Rightarrow> ('h, 'n, 'r) Daemon \<times> Sandbox list result" where
  "d_List svc d = (called d, List_sandboxes (d_db svc d) (Daemon_Store d))"

definition d_Update :: "('h, 'n, 'r) Services \<Rightarrow> ('h, 'n, 'r) Daemon \<Rightarrow> string \<Rightarrow> (Sandbox \<Rightarrow> Sandbox result) \<Rightarrow> ('h, 'n, 'r) Daemon \<times> error option" where
  "d_Update svc d sid fn =
     (let (st, e) = Update (d_db svc d) (d_now svc d) (Daemon_Store d) sid fn in ((called d)\<lparr>Daemon_Store := st\<rparr>, e))"

definition d_Create :: "('h, 'n, 'r) Services \<Rightarrow> ('h, 'n, 'r) Daemon \<Rightarrow> Sandbox \<Rightarrow> ('h, 'n, 'r) Daemon \<times> error option" where
  "d_Create svc d v =
     (let (st, e) = Create_row (d_db svc d) (d_now svc d) (Daemon_Store d) v in ((called d)\<lparr>Daemon_Store := st\<rparr>, e))"

definition d_Intent :: "('h, 'n, 'r) Services \<Rightarrow> ('h, 'n, 'r) Daemon \<Rightarrow> string \<Rightarrow> string \<Rightarrow> ('h, 'n, 'r) Daemon" where
  "d_Intent svc d sid action =
     (called d)\<lparr>Daemon_Store := fst (Intent (d_db svc d) (d_now svc d) (Daemon_Store d) sid action)\<rparr>"

definition d_Delete :: "('h, 'n, 'r) Services \<Rightarrow> ('h, 'n, 'r) Daemon \<Rightarrow> string \<Rightarrow> ('h, 'n, 'r) Daemon \<times> error option" where
  "d_Delete svc d sid =
     (let (st, e) = Delete (d_db svc d) (Daemon_Store d) sid in ((called d)\<lparr>Daemon_Store := st\<rparr>, e))"

text \<open>The host through the daemon.\<close>

definition on_vm :: "('h \<Rightarrow> 'h \<times> 'a) \<Rightarrow> ('h, 'n, 'r) Daemon \<Rightarrow> ('h, 'n, 'r) Daemon \<times> 'a" where
  "on_vm f d = (let (h, r) = f (Daemon_vm d) in (d\<lparr>Daemon_vm := h\<rparr>, r))"

definition on_net :: "('n \<Rightarrow> 'n \<times> 'a) \<Rightarrow> ('h, 'n, 'r) Daemon \<Rightarrow> ('h, 'n, 'r) Daemon \<times> 'a" where
  "on_net f d = (let (n, r) = f (Daemon_net d) in (d\<lparr>Daemon_net := n\<rparr>, r))"

definition on_repo :: "('r \<Rightarrow> 'r \<times> 'a) \<Rightarrow> ('h, 'n, 'r) Daemon \<Rightarrow> ('h, 'n, 'r) Daemon \<times> 'a" where
  "on_repo f d = (let (x, r) = f (Daemon_repo d) in (d\<lparr>Daemon_repo := x\<rparr>, r))"

definition d_Kill :: "('h, 'n, 'r) Services \<Rightarrow> Sandbox \<Rightarrow> ('h, 'n, 'r) Daemon \<Rightarrow> ('h, 'n, 'r) Daemon \<times> error option" where
  "d_Kill svc v = on_vm (\<lambda>h. VM_Kill (Svc_VM svc) h v)"

definition d_RemoveVM :: "('h, 'n, 'r) Services \<Rightarrow> Sandbox \<Rightarrow> ('h, 'n, 'r) Daemon \<Rightarrow> ('h, 'n, 'r) Daemon \<times> error option" where
  "d_RemoveVM svc v = on_vm (\<lambda>h. VM_Remove (Svc_VM svc) h v)"

definition d_RemoveNet :: "('h, 'n, 'r) Services \<Rightarrow> Sandbox \<Rightarrow> ('h, 'n, 'r) Daemon \<Rightarrow> ('h, 'n, 'r) Daemon \<times> error option" where
  "d_RemoveNet svc v = on_net (\<lambda>n. Net_Remove (Svc_Net svc) n v)"

definition dir :: "('h, 'n, 'r) Daemon \<Rightarrow> string \<Rightarrow> string" where
  "dir d sid = path_Join [DaemonConfig_Root (Daemon_Config d), ''sandboxes'', sid]"

section \<open>Creating\<close>

fun check_volumes :: "('h, 'n, 'r) Services \<Rightarrow> ('h, 'n, 'r) Daemon \<Rightarrow> string list \<Rightarrow> ('h, 'n, 'r) Daemon \<times> error option" where
  "check_volumes svc d [] = (d, None)"
| "check_volumes svc d (m # ms) =
     (case Volume_get (d_db svc d) (Daemon_Store d) m of
        Inl e \<Rightarrow> (called d, Some e)
      | Inr _ \<Rightarrow> check_volumes svc (called d) ms)"

definition with_base :: "('h, 'n, 'r) Daemon \<Rightarrow> Spec \<Rightarrow> Spec" where
  "with_base d s = (if Spec_Base s = [] then s\<lparr>Spec_Base := DaemonConfig_DefaultBase (Daemon_Config d)\<rparr> else s)"

definition with_name :: "string \<Rightarrow> Spec \<Rightarrow> Spec" where
  "with_name sid s = (if Spec_Name s = [] then s\<lparr>Spec_Name := ''nf-'' @ take 12 sid\<rparr> else s)"

definition new_sandbox :: "string \<Rightarrow> Spec \<Rightarrow> int \<Rightarrow> int \<Rightarrow> Sandbox" where
  "new_sandbox sid s slot now =
     v0\<lparr>Sandbox_ID := sid, Sandbox_Name := Spec_Name s, Sandbox_Spec := s, Sandbox_State := ''creating'', Sandbox_Slot := slot,
       Sandbox_Created := now, Sandbox_Updated := now, Sandbox_VMResourcesReleased := True\<rparr>"

definition Create_alloc :: "('h, 'n, 'r) Services \<Rightarrow> ('h, 'n, 'r) Daemon \<Rightarrow> Spec \<Rightarrow> ('h, 'n, 'r) Daemon \<times> Sandbox result" where
  "Create_alloc svc d s0 =
     (case Validate s0 of Some e \<Rightarrow> (d, Inl e) | None \<Rightarrow>
      (let s = with_base d s0 in
       if Spec_Base s = [] then (d, Inl (Errorf ''no default base configured; set DefaultBase or use --base''))
       else case d_List svc d of (d1, Inl e) \<Rightarrow> (d1, Inl e) | (d1, Inr all) \<Rightarrow>
       (case create_conflict s all of Some e \<Rightarrow> (d1, Inl e) | None \<Rightarrow>
        (case check_volumes svc d1 (mount_names s) of (d2, Some e) \<Rightarrow> (d2, Inl e) | (d2, None) \<Rightarrow>
         (let slot = first_free (map Sandbox_Slot all) 1 in
          if slot > 16000 then (d2, Inl (Errorf ''no address slots available''))
          else
            (let sid = Svc_ID svc (Daemon_calls d2); v = new_sandbox sid (with_name sid s) slot (d_now svc d2) in
             case d_Create svc d2 v of (d3, Some e) \<Rightarrow> (d3, Inl e) | (d3, None) \<Rightarrow> (d3, Inr v)))))))"

text \<open>The deferred failure of \<open>Create\<close>: the disks are removed and the record is marked.\<close>

definition create_fail :: "('h, 'n, 'r) Services \<Rightarrow> Sandbox \<Rightarrow> ('h, 'n, 'r) Daemon \<Rightarrow> error \<Rightarrow> ('h, 'n, 'r) Daemon \<times> Sandbox result" where
  "create_fail svc v d err =
     (let sid = Sandbox_ID v;
          d1 = fst (on_repo (\<lambda>r. Repo_Remove (Svc_Repo svc) r (path_Join [dir d sid, ''app.ext4''])) d);
          d2 = fst (on_repo (\<lambda>r. Repo_Remove (Svc_Repo svc) r (path_Join [dir d sid, ''state.ext4''])) d1);
          d3 = fst (d_Update svc d2 sid (Transition ''failed'' (error_text err)))
      in (d3, Inl err))"

definition create_warnings :: "ImageConfig \<Rightarrow> string list" where
  "create_warnings c =
     (if ImageConfig_Healthcheck c then [''image healthcheck is unsupported in phase one''] else []) @
     (if ImageConfig_Volumes c \<noteq> []
      then [''image VOLUME paths remain in writable root unless explicitly mounted: ['' @ join_with (CHR '' '') (ImageConfig_Volumes c) @ '']'']
      else [])"

definition guest_memory :: "int \<Rightarrow> int \<Rightarrow> int" where
  "guest_memory mem reserve =
     wrap64 (wrap64 (go_div (wrap64 (wrap64 (mem + MiB) - 1)) MiB + reserve) * MiB)"

definition layers_size :: "Descriptor list \<Rightarrow> int" where
  "layers_size ls = foldl (\<lambda>n l. wrap64 (n + Descriptor_Size l)) 0 ls"

definition prepared :: "Sandbox \<Rightarrow> Image \<Rightarrow> Bundle \<Rightarrow> Process \<Rightarrow> Sandbox" where
  "prepared v img b p =
     v\<lparr>Sandbox_Warnings := Sandbox_Warnings v @ create_warnings (Image_Config img), Sandbox_Process := p,
       Sandbox_ImageDigest := Image_Digest img, Sandbox_BaseDigest := Bundle_Digest b,
       Sandbox_GuestMemory := guest_memory (Spec_Memory (Sandbox_Spec v)) (BaseConfig_GuestReserveMiB (Signed_Config (Bundle_Signed b)))\<rparr>"

definition create_disks :: "('h, 'n, 'r) Services \<Rightarrow> Sandbox \<Rightarrow> Image \<Rightarrow> string \<Rightarrow> ('h, 'n, 'r) Daemon \<Rightarrow> ('h, 'n, 'r) Daemon \<times> error option" where
  "create_disks svc v img tmp d =
     (case on_repo (\<lambda>r. Repo_Carrier (Svc_Repo svc) r tmp img) d of (d1, Some e) \<Rightarrow> (d1, Some e) | (d1, None) \<Rightarrow>
      (case on_repo (\<lambda>r. Repo_Disk (Svc_Repo svc) r (path_Join [dir d (Sandbox_ID v), ''app.ext4'']) (CarrierSize (layers_size (Image_Layers img))) tmp) d1 of
         (d2, Some e) \<Rightarrow> (d2, Some e) | (d2, None) \<Rightarrow>
       on_repo (\<lambda>r. Repo_Disk (Svc_Repo svc) r (path_Join [dir d (Sandbox_ID v), ''state.ext4'']) (Spec_DiskSize (Sandbox_Spec v)) []) d2))"

text \<open>The record that the images determine: the image and the base are pulled and the process
  resolved.\<close>

definition create_images :: "('h, 'n, 'r) Services \<Rightarrow> Sandbox \<Rightarrow> ('h, 'n, 'r) Daemon \<Rightarrow> ('h, 'n, 'r) Daemon \<times> (Image \<times> Sandbox) result" where
  "create_images svc v d =
     (let s = Sandbox_Spec v in
      case on_repo (\<lambda>r. Repo_PullImage (Svc_Repo svc) r (Spec_Image s) (Spec_Pull s)) d of (d1, Inl e) \<Rightarrow> (d1, Inl e) | (d1, Inr img) \<Rightarrow>
      (case on_repo (\<lambda>r. Repo_PullBase (Svc_Repo svc) r (Spec_Base s) (Spec_Pull s)) d1 of (d2, Inl e) \<Rightarrow> (d2, Inl e) | (d2, Inr b) \<Rightarrow>
       (case Resolve s (Image_Config img) of Inl e \<Rightarrow> (d2, Inl e) | Inr p \<Rightarrow> (d2, Inr (img, prepared v img b p)))))"

definition Create_prepare :: "('h, 'n, 'r) Services \<Rightarrow> ('h, 'n, 'r) Daemon \<Rightarrow> Sandbox \<Rightarrow> ('h, 'n, 'r) Daemon \<times> Sandbox result" where
  "Create_prepare svc d v =
     (let sid = Sandbox_ID v in
      case on_repo (\<lambda>r. Repo_MkdirAll (Svc_Repo svc) r (dir d sid)) d of (d1, Some e) \<Rightarrow> create_fail svc v d1 e | (d1, None) \<Rightarrow>
      (case create_images svc v (d_Intent svc d1 sid ''prepare-images'') of (d2, Inl e) \<Rightarrow> create_fail svc v d2 e | (d2, Inr (img, u)) \<Rightarrow>
       (case on_repo (\<lambda>r. Repo_MkdirTemp (Svc_Repo svc) r (dir d sid)) (d_Intent svc d2 sid ''prepare-disks'') of
          (d3, Inl e) \<Rightarrow> create_fail svc v d3 e
        | (d3, Inr tmp) \<Rightarrow>
          (let (d5, r) =
             (case create_disks svc v img tmp d3 of (d4, Some e) \<Rightarrow> create_fail svc v d4 e | (d4, None) \<Rightarrow>
              (let u1 = u\<lparr>Sandbox_State := ''created''\<rparr> in
               case d_Update svc d4 sid (\<lambda>_. Inr u1) of (d5, Some e) \<Rightarrow> create_fail svc v d5 e | (d5, None) \<Rightarrow> (d5, Inr u1)))
           in (fst (on_repo (\<lambda>r. Repo_RemoveAll (Svc_Repo svc) r tmp) d5), r)))))"

definition Create :: "('h, 'n, 'r) Services \<Rightarrow> ('h, 'n, 'r) Daemon \<Rightarrow> Spec \<Rightarrow> ('h, 'n, 'r) Daemon \<times> Sandbox result" where
  "Create svc d s = (case Create_alloc svc d s of (d1, Inl e) \<Rightarrow> (d1, Inl e) | (d1, Inr v) \<Rightarrow> Create_prepare svc d1 v)"

section \<open>Ports and DNS\<close>

text \<open>\<open>reservePorts\<close> opens the listeners in order; when one fails, those already open are closed.\<close>

fun listen_all :: "('h, 'n, 'r) Services \<Rightarrow> ('h, 'n, 'r) Daemon \<Rightarrow> Port list \<Rightarrow> Port list \<Rightarrow> ('h, 'n, 'r) Daemon \<times> Port list result" where
  "listen_all svc d held [] = (d, Inr held)"
| "listen_all svc d held (p # ps) =
     (case on_net (\<lambda>n. Net_Listen (Svc_Net svc) n p) d of
        (d1, Some e) \<Rightarrow> (d1\<lparr>Daemon_net := foldl (Net_Close (Svc_Net svc)) (Daemon_net d1) held\<rparr>, Inl (Errorf (''host port unavailable: '' @ error_text e)))
      | (d1, None) \<Rightarrow> listen_all svc d1 (held @ [p]) ps)"

definition reservePorts :: "('h, 'n, 'r) Services \<Rightarrow> ('h, 'n, 'r) Daemon \<Rightarrow> Sandbox \<Rightarrow> ('h, 'n, 'r) Daemon \<times> error option" where
  "reservePorts svc d v =
     (if Daemon_ports d (Sandbox_ID v) \<noteq> [] then (d, None)
      else case listen_all svc d [] (Spec_Ports (Sandbox_Spec v)) of
        (d1, Inl e) \<Rightarrow> (d1, Some e)
      | (d1, Inr ls) \<Rightarrow> (d1\<lparr>Daemon_ports := (Daemon_ports d1)(Sandbox_ID v := ls)\<rparr>, None))"

definition startDNS :: "('h, 'n, 'r) Services \<Rightarrow> ('h, 'n, 'r) Daemon \<Rightarrow> Sandbox \<Rightarrow> ('h, 'n, 'r) Daemon \<times> error option" where
  "startDNS svc d v =
     (case For (Sandbox_ID v) (Sandbox_Slot v) of
        Inl e \<Rightarrow> (d, Some e)
      | Inr c \<Rightarrow>
          if Daemon_dns d (Sandbox_ID v) \<noteq> None then (d, None)
          else case on_net (\<lambda>n. Net_DNS (Svc_Net svc) n (Config_HostIP c) (DaemonConfig_DNSUpstream (Daemon_Config d))) d of
            (d1, Some e) \<Rightarrow> (d1, Some e)
          | (d1, None) \<Rightarrow> (d1\<lparr>Daemon_dns := (Daemon_dns d1)(Sandbox_ID v \<mapsto> Config_HostIP c)\<rparr>, None))"

definition stopDNS :: "('h, 'n, 'r) Services \<Rightarrow> ('h, 'n, 'r) Daemon \<Rightarrow> string \<Rightarrow> ('h, 'n, 'r) Daemon" where
  "stopDNS svc d sid =
     (let n1 = (case Daemon_dns d sid of None \<Rightarrow> Daemon_net d | Some ip \<Rightarrow> Net_StopDNS (Svc_Net svc) (Daemon_net d) ip);
          n2 = foldl (Net_Close (Svc_Net svc)) n1 (Daemon_ports d sid)
      in d\<lparr>Daemon_net := n2, Daemon_dns := (Daemon_dns d)(sid := None), Daemon_ports := (Daemon_ports d)(sid := [])\<rparr>)"

text \<open>What every clean-up does once the machine is killed; the two errors are those of the network and
  of the jail.\<close>

definition release :: "('h, 'n, 'r) Services \<Rightarrow> ('h, 'n, 'r) Daemon \<Rightarrow> Sandbox \<Rightarrow> ('h, 'n, 'r) Daemon \<times> error option \<times> error option" where
  "release svc d v =
     (let (d1, netErr) = d_RemoveNet svc v d; (d2, vmErr) = d_RemoveVM svc v d1 in (d2, netErr, vmErr))"

section \<open>Starting\<close>

definition starting :: "Sandbox \<Rightarrow> Sandbox" where
  "starting v = v\<lparr>Sandbox_Generation := wrap64 (Sandbox_Generation v + 1), Sandbox_State := ''starting'', Sandbox_Exit := None,
     Sandbox_Reason := [], Sandbox_VMResourcesReleased := False\<rparr>"

definition Start_admit :: "('h, 'n, 'r) Services \<Rightarrow> ('h, 'n, 'r) Daemon \<Rightarrow> string \<Rightarrow> ('h, 'n, 'r) Daemon \<times> (Sandbox \<times> Bundle) result" where
  "Start_admit svc d ref =
     (case d_Get svc d ref of (d1, Inl e) \<Rightarrow> (d1, Inl e) | (d1, Inr v1) \<Rightarrow>
      (case d_Get svc d1 (Sandbox_ID v1) of (d2, Inl e) \<Rightarrow> (d2, Inl e) | (d2, Inr v) \<Rightarrow>
       if Sandbox_State v \<noteq> ''created'' \<and> Sandbox_State v \<noteq> ''exited''
       then (d2, Inl (Errorf (''cannot start sandbox in state '' @ Sandbox_State v)))
       else case VM_Check (Svc_VM svc) (Daemon_vm d2) of Some e \<Rightarrow> (d2, Inl e) | None \<Rightarrow>
       (case Repo_GetBase (Svc_Repo svc) (Daemon_repo d2) (Sandbox_BaseDigest v) of Inl e \<Rightarrow> (d2, Inl e) | Inr b \<Rightarrow>
        (case d_List svc d2 of (d3, Inl e) \<Rightarrow> (d3, Inl e) | (d3, Inr all) \<Rightarrow>
         (case volume_conflict v all of Some e \<Rightarrow> (d3, Inl e) | None \<Rightarrow>
          (case budget_error (reserved_memory (envelope v) all) (availableMemory (Svc_meminfo svc (Daemon_calls d3))) of
             Some e \<Rightarrow> (d3, Inl e)
           | None \<Rightarrow>
             (case d_Update svc d3 (Sandbox_ID v) (\<lambda>_. Inr (starting v)) of
                (d4, Some e) \<Rightarrow> (d4, Inl e)
              | (d4, None) \<Rightarrow> (d4, Inr (starting v, b)))))))))"

text \<open>The failure path of \<open>Start\<close>: the machine is killed and its resources released, and the record
  keeps them reserved unless every part succeeded.\<close>

definition Start_fail :: "('h, 'n, 'r) Services \<Rightarrow> Sandbox \<Rightarrow> ('h, 'n, 'r) Daemon \<Rightarrow> error \<Rightarrow> ('h, 'n, 'r) Daemon \<times> Sandbox result" where
  "Start_fail svc v d err =
     (let (d1, killErr) = d_Kill svc v d;
          (d2, released, reason) =
            (case killErr of
               None \<Rightarrow> (let (d2, netErr, vmErr) = release svc (stopDNS svc d1 (Sandbox_ID v)) v in (d2, netErr = None \<and> vmErr = None, error_text err))
             | Some ke \<Rightarrow> (d1, False, error_text err @ ''; VMM termination failed: '' @ error_text ke));
          d3 = fst (d_Update svc d2 (Sandbox_ID v) (\<lambda>x. Transition ''failed'' reason
                 (x\<lparr>Sandbox_PID := Sandbox_PID v, Sandbox_PIDStart := Sandbox_PIDStart v, Sandbox_VMResourcesReleased := released\<rparr>)))
      in (d3, Inl err))"

definition monitor_register :: "('h, 'n, 'r) Daemon \<Rightarrow> Sandbox \<Rightarrow> ('h, 'n, 'r) Daemon" where
  "monitor_register d v =
     (if Daemon_monitors d (Sandbox_ID v) = Sandbox_Generation v then d
      else d\<lparr>Daemon_monitors := (Daemon_monitors d)(Sandbox_ID v := Sandbox_Generation v)\<rparr>)"

definition operation_id :: "Sandbox \<Rightarrow> string" where
  "operation_id v = Sandbox_ID v @ ''-'' @ Itoa (Sandbox_Generation v)"

text \<open>The network side of the boot, then the machine, then the workload.\<close>

definition boot_network :: "('h, 'n, 'r) Services \<Rightarrow> ('h, 'n, 'r) Daemon \<Rightarrow> Sandbox \<Rightarrow> ('h, 'n, 'r) Daemon \<times> error option" where
  "boot_network svc d v =
     (case reservePorts svc (d_Intent svc d (Sandbox_ID v) ''prepare-network'') v of (d1, Some e) \<Rightarrow> (d1, Some e) | (d1, None) \<Rightarrow>
      (case on_net (\<lambda>n. Net_Prepare (Svc_Net svc) n v) d1 of (d2, Some e) \<Rightarrow> (d2, Some e) | (d2, None) \<Rightarrow>
       if Spec_Network (Sandbox_Spec v) = ''bridge'' then startDNS svc d2 v else (d2, None)))"

definition boot_workload :: "('h, 'n, 'r) Services \<Rightarrow> ('h, 'n, 'r) Daemon \<Rightarrow> Sandbox \<Rightarrow> ('h, 'n, 'r) Daemon \<times> Sandbox result" where
  "boot_workload svc d v =
     (case d_Update svc d (Sandbox_ID v) (\<lambda>x. Inr (x\<lparr>Sandbox_PID := Sandbox_PID v, Sandbox_PIDStart := Sandbox_PIDStart v\<rparr>)) of
        (d1, Some e) \<Rightarrow> Start_fail svc v d1 e
      | (d1, None) \<Rightarrow>
        (case on_vm (\<lambda>h. VM_Ready (Svc_VM svc) h v) d1 of (d2, Some e) \<Rightarrow> Start_fail svc v d2 e | (d2, None) \<Rightarrow>
         (case on_vm (\<lambda>h. VM_Call (Svc_VM svc) h v (Request0\<lparr>Request_Action := ''start'', Request_Operation := operation_id v\<rparr>)) d2 of
            (d3, Inl e) \<Rightarrow> Start_fail svc v d3 e
          | (d3, Inr _) \<Rightarrow>
            (case d_Update svc d3 (Sandbox_ID v) (Transition ''running'' []) of
               (d4, Some e) \<Rightarrow> Start_fail svc v d4 e
             | (d4, None) \<Rightarrow>
                (let u = v\<lparr>Sandbox_State := ''running''\<rparr> in (monitor_register d4 u, Inr u))))))"

definition Start_boot :: "('h, 'n, 'r) Services \<Rightarrow> ('h, 'n, 'r) Daemon \<Rightarrow> Sandbox \<Rightarrow> Bundle \<Rightarrow> ('h, 'n, 'r) Daemon \<times> Sandbox result" where
  "Start_boot svc d v b =
     (case boot_network svc d v of (d1, Some e) \<Rightarrow> Start_fail svc v d1 e | (d1, None) \<Rightarrow>
      (case on_vm (\<lambda>h. VM_Start (Svc_VM svc) h v b) (d_Intent svc d1 (Sandbox_ID v) ''start-vmm'') of
         (d2, Inl e) \<Rightarrow> Start_fail svc (v\<lparr>Sandbox_PID := 0, Sandbox_PIDStart := []\<rparr>) d2 e
       | (d2, Inr (pid, start)) \<Rightarrow> boot_workload svc d2 (v\<lparr>Sandbox_PID := pid, Sandbox_PIDStart := start\<rparr>)))"

definition Start :: "('h, 'n, 'r) Services \<Rightarrow> ('h, 'n, 'r) Daemon \<Rightarrow> string \<Rightarrow> ('h, 'n, 'r) Daemon \<times> Sandbox result" where
  "Start svc d ref =
     (case Start_admit svc d ref of (d1, Inl e) \<Rightarrow> (d1, Inl e) | (d1, Inr (v, b)) \<Rightarrow> Start_boot svc d1 v b)"

section \<open>Finishing\<close>

definition current_generation :: "('h, 'n, 'r) Services \<Rightarrow> ('h, 'n, 'r) Daemon \<Rightarrow> Sandbox \<Rightarrow> ('h, 'n, 'r) Daemon \<times> Sandbox option" where
  "current_generation svc d v =
     (case d_Get svc d (Sandbox_ID v) of
        (d1, Inl e) \<Rightarrow> (d1, None)
      | (d1, Inr u) \<Rightarrow> (d1, if Sandbox_Generation u = Sandbox_Generation v then Some u else None))"

definition shutdown_guest :: "('h, 'n, 'r) Services \<Rightarrow> Sandbox \<Rightarrow> ('h, 'n, 'r) Daemon \<Rightarrow> ('h, 'n, 'r) Daemon" where
  "shutdown_guest svc v d =
     (case VM_Client (Svc_VM svc) (Daemon_vm d) v of
        Some e \<Rightarrow> d
      | None \<Rightarrow>
          (case on_vm (\<lambda>h. VM_Call (Svc_VM svc) h v (Request0\<lparr>Request_Action := ''shutdown''\<rparr>)) d of
             (d1, Inl e) \<Rightarrow> d1
           | (d1, Inr _) \<Rightarrow> d1\<lparr>Daemon_vm := VM_Await (Svc_VM svc) (Daemon_vm d1) v\<rparr>))"

definition err_text :: "error option \<Rightarrow> string" where
  "err_text e = (case e of None \<Rightarrow> ''<nil>'' | Some e \<Rightarrow> error_text e)"

definition finished :: "Exit option \<Rightarrow> error option \<Rightarrow> error option \<Rightarrow> Sandbox \<Rightarrow> Sandbox" where
  "finished exit netErr vmErr s =
     (let s1 = s\<lparr>Sandbox_State := ''exited'', Sandbox_Exit := exit, Sandbox_PID := 0, Sandbox_PIDStart := [],
                Sandbox_VMResourcesReleased := (netErr = None \<and> vmErr = None)\<rparr> in
      if netErr \<noteq> None \<or> vmErr \<noteq> None
      then s1\<lparr>Sandbox_State := ''failed'', Sandbox_Reason := ''cleanup failed: '' @ err_text netErr @ '' '' @ err_text vmErr\<rparr>
      else s1)"

definition auto_remove :: "('h, 'n, 'r) Services \<Rightarrow> Sandbox \<Rightarrow> Exit option \<Rightarrow> ('h, 'n, 'r) Daemon \<Rightarrow> ('h, 'n, 'r) Daemon" where
  "auto_remove svc v exit d =
     (case on_repo (\<lambda>r. Repo_SaveResult (Svc_Repo svc) r v exit) d of
        (d1, Some e) \<Rightarrow> fst (d_Update svc d1 (Sandbox_ID v) (\<lambda>s. Inr (s\<lparr>Sandbox_Reason := ''automatic removal deferred: '' @ error_text e\<rparr>)))
      | (d1, None) \<Rightarrow>
          (let d2 = d_Intent svc d1 (Sandbox_ID v) ''auto-remove'';
               d3 = fst (on_repo (\<lambda>r. Repo_RemoveAll (Svc_Repo svc) r (dir d (Sandbox_ID v))) d2)
           in fst (d_Delete svc d3 (Sandbox_ID v))))"

definition finish :: "('h, 'n, 'r) Services \<Rightarrow> ('h, 'n, 'r) Daemon \<Rightarrow> Sandbox \<Rightarrow> Exit option \<Rightarrow> ('h, 'n, 'r) Daemon" where
  "finish svc d v exit =
     (case current_generation svc d v of (d1, None) \<Rightarrow> d1 | (d1, Some current) \<Rightarrow>
      (case d_Kill svc v (shutdown_guest svc v d1) of
         (d2, Some e) \<Rightarrow> fst (d_Update svc d2 (Sandbox_ID v) (\<lambda>s. Inr (s\<lparr>Sandbox_State := ''failed'',
             Sandbox_Reason := ''VMM termination failed: '' @ error_text e, Sandbox_VMResourcesReleased := False\<rparr>)))
       | (d2, None) \<Rightarrow>
         (let (d3, netErr, vmErr) = release svc (stopDNS svc d2 (Sandbox_ID v)) v;
              d4 = fst (d_Update svc d3 (Sandbox_ID v) (\<lambda>s. Inr (finished exit netErr vmErr s)))
          in if Spec_AutoRemove (Sandbox_Spec current) \<and> netErr = None \<and> vmErr = None then auto_remove svc v exit d4 else d4)))"

section \<open>Monitoring\<close>

text \<open>
  The goroutine that \<open>monitor\<close> starts: the log cursor, the count of consecutive failures, what has
  been written to the application log, and the cursor file.  \<open>monitor_poll\<close> is one round of its
  loop; \<open>monitor_drain\<close> the loop that empties the log once the workload has exited.
\<close>

record monitor_state =
  mon_cursor :: nat
  mon_failures :: int
  mon_log :: "(string \<times> string) list"
  mon_saved :: nat

datatype monitor_next = MonReturn | MonAgain | MonFinish Exit

definition frames_of :: "answer \<Rightarrow> Frame list" where
  "frames_of a = (case a of AnsFrames fs \<Rightarrow> fs | _ \<Rightarrow> [])"

definition status_of :: "answer \<Rightarrow> GuestStatus" where
  "status_of a = (case a of AnsStatus st \<Rightarrow> st
     | _ \<Rightarrow> \<lparr>GuestStatus_Protocol = 0, GuestStatus_ID = [], GuestStatus_Generation = 0, GuestStatus_State = [], GuestStatus_Exit = None, GuestStatus_PID = 0\<rparr>)"

definition logs_request :: "nat \<Rightarrow> Request" where
  "logs_request cursor = Request0\<lparr>Request_Action := ''logs'', Request_Data := itoa_nat cursor\<rparr>"

definition forwarded :: "Frame \<Rightarrow> string \<times> string" where
  "forwarded f = (if Frame_Type f = ''gap'' then (''gap'', Frame_Message f) else (Frame_Type f, Frame_Data f))"

definition last_sequence :: "nat \<Rightarrow> Frame list \<Rightarrow> nat" where
  "last_sequence cursor fs = (if fs = [] then cursor else Frame_Sequence (last fs))"

partial_function (option) monitor_drain :: "'h Backend \<Rightarrow> Sandbox \<Rightarrow> 'h \<Rightarrow> nat \<Rightarrow> (string \<times> string) list \<Rightarrow> ('h \<times> nat \<times> (string \<times> string) list) option" where
  "monitor_drain vm v h cursor log =
     (let out = VM_Call vm h v (logs_request cursor);
          fs = (if isl (snd out) then [] else frames_of (projr (snd out)))
      in if fs = [] then Some (fst out, cursor, log)
         else monitor_drain vm v (fst out) (last_sequence cursor fs) (log @ map (\<lambda>f. (Frame_Type f, Frame_Data f)) fs))"

definition lost_exit :: "int \<Rightarrow> Exit" where
  "lost_exit now = \<lparr>Exit_Code = None, Exit_Reason = ''guest control lost; application exit status unknown'', Exit_OOM = False, Exit_At = now\<rparr>"

definition give_up :: "('h, 'n, 'r) Services \<Rightarrow> ('h, 'n, 'r) Daemon \<Rightarrow> monitor_state \<Rightarrow> monitor_next" where
  "give_up svc d m = (if mon_failures m \<ge> 5 then MonFinish (lost_exit (d_now svc d)) else MonAgain)"

definition failed_round :: "monitor_state \<Rightarrow> monitor_state" where
  "failed_round m = m\<lparr>mon_failures := mon_failures m + 1\<rparr>"

definition monitor_poll :: "('h, 'n, 'r) Services \<Rightarrow> ('h, 'n, 'r) Daemon \<Rightarrow> Sandbox \<Rightarrow> monitor_state \<Rightarrow> (('h, 'n, 'r) Daemon \<times> monitor_state \<times> monitor_next) option" where
  "monitor_poll svc d v m =
     (case current_generation svc d v of (d1, None) \<Rightarrow> Some (d1, m, MonReturn) | (d1, Some _) \<Rightarrow>
      (case VM_Client (Svc_VM svc) (Daemon_vm d1) v of
         Some e \<Rightarrow> (let m1 = failed_round m in Some (d1, m1, give_up svc d1 m1))
       | None \<Rightarrow>
         (case on_vm (\<lambda>h. VM_Call (Svc_VM svc) h v (logs_request (mon_cursor m))) d1 of
            (d2, Inl e) \<Rightarrow> (let m1 = failed_round m in Some (d2, m1, give_up svc d2 m1))
          | (d2, Inr a) \<Rightarrow>
            (let fs = frames_of a; cur = last_sequence (mon_cursor m) fs;
                 m1 = m\<lparr>mon_log := mon_log m @ map forwarded fs, mon_cursor := cur, mon_saved := cur\<rparr> in
             case on_vm (\<lambda>h. VM_Call (Svc_VM svc) h v (Request0\<lparr>Request_Action := ''status''\<rparr>)) d2 of
               (d3, Inl e) \<Rightarrow> (let m2 = failed_round m1 in Some (d3, m2, give_up svc d3 m2))
             | (d3, Inr a2) \<Rightarrow>
               (let st = status_of a2 in
                if GuestStatus_ID st \<noteq> Sandbox_ID v \<or> GuestStatus_Generation st \<noteq> Sandbox_Generation v
                then (let m2 = m1\<lparr>mon_failures := 100\<rparr> in Some (d3, m2, give_up svc d3 m2))
                else case GuestStatus_Exit st of
                  Some x \<Rightarrow>
                    if GuestStatus_State st = ''exited'' then
                      map_option (\<lambda>(h, c, l). (d3\<lparr>Daemon_vm := h\<rparr>, m1\<lparr>mon_failures := 0, mon_cursor := c, mon_log := l\<rparr>, MonFinish x))
                        (monitor_drain (Svc_VM svc) v (Daemon_vm d3) (mon_cursor m1) (mon_log m1))
                    else Some (d3, m1\<lparr>mon_failures := 0\<rparr>, MonAgain)
                | None \<Rightarrow> Some (d3, m1\<lparr>mon_failures := 0\<rparr>, MonAgain))))))"

text \<open>When a round ends the loop, \<open>finish\<close> runs and the registration is dropped.\<close>

definition monitor_end :: "('h, 'n, 'r) Services \<Rightarrow> ('h, 'n, 'r) Daemon \<Rightarrow> Sandbox \<Rightarrow> monitor_next \<Rightarrow> ('h, 'n, 'r) Daemon" where
  "monitor_end svc d v nx =
     (let d1 = (case nx of MonFinish x \<Rightarrow> finish svc d v (Some x) | _ \<Rightarrow> d) in
      if nx \<noteq> MonAgain \<and> Daemon_monitors d1 (Sandbox_ID v) = Sandbox_Generation v
      then d1\<lparr>Daemon_monitors := (Daemon_monitors d1)(Sandbox_ID v := 0)\<rparr> else d1)"

section \<open>Waiting and stopping\<close>

text \<open>The k-th round of \<open>Wait\<close> sees \<open>obs k\<close> in the store and \<open>saved k\<close> among the retained results.\<close>

definition wait_verdict :: "Sandbox result \<Rightarrow> Exit result \<Rightarrow> Exit result option" where
  "wait_verdict got saved =
     (case got of
        Inl e \<Rightarrow> Some (case saved of Inr x \<Rightarrow> Inr x | Inl _ \<Rightarrow> Inl e)
      | Inr v \<Rightarrow>
          if Sandbox_State v = ''created'' then Some (Inl (Errorf ''container has not started''))
          else case Sandbox_Exit v of
            Some x \<Rightarrow> Some (Inr x)
          | None \<Rightarrow>
              if Sandbox_State v = ''failed''
              then Some (Inr \<lparr>Exit_Code = None, Exit_Reason = Sandbox_Reason v, Exit_OOM = False, Exit_At = Sandbox_Updated v\<rparr>)
              else None)"

partial_function (option) Wait :: "(nat \<Rightarrow> Sandbox result) \<Rightarrow> (nat \<Rightarrow> Exit result) \<Rightarrow> (nat \<Rightarrow> error option) \<Rightarrow> nat \<Rightarrow> Exit result option" where
  "Wait obs saved ctx k =
     (case wait_verdict (obs k) (saved k) of
        Some r \<Rightarrow> Some r
      | None \<Rightarrow> (case ctx k of Some e \<Rightarrow> Some (Inl e) | None \<Rightarrow> Wait obs saved ctx (Suc k)))"

text \<open>\<open>Stop\<close> up to its wait: nothing to do, an error, or the sandbox to wait for.\<close>

definition Stop_request :: "('h, 'n, 'r) Services \<Rightarrow> ('h, 'n, 'r) Daemon \<Rightarrow> string \<Rightarrow> int \<Rightarrow> ('h, 'n, 'r) Daemon \<times> string option result" where
  "Stop_request svc d ref seconds =
     (case d_Get svc d ref of (d1, Inl e) \<Rightarrow> (d1, Inl e) | (d1, Inr v) \<Rightarrow>
      if Sandbox_State v = ''exited'' \<or> Sandbox_State v = ''created'' then (d1, Inr None)
      else if seconds < 0 \<or> seconds > 300 then (d1, Inl (Errorf ''timeout must be 0..300 seconds''))
      else
        (let d2 = fst (d_Update svc d1 (Sandbox_ID v) (Transition ''stopping'' []));
             (d3, ok) = (case VM_Client (Svc_VM svc) (Daemon_vm d2) v of
                Some e \<Rightarrow> (d2, False)
              | None \<Rightarrow>
                  (let (d3, r) = on_vm (\<lambda>h. VM_Call (Svc_VM svc) h v (Request0\<lparr>Request_Action := ''stop'', Request_Timeout := seconds\<rparr>)) d2
                   in (d3, \<not> isl r)));
             d4 = (if ok then d3
                   else finish svc d3 v (Some \<lparr>Exit_Code = None, Exit_Reason = ''forced VM stop; workload exit status unknown'', Exit_OOM = False, Exit_At = d_now svc d3\<rparr>))
         in (d4, Inr (Some (Sandbox_ID v)))))"

definition Stop :: "('h, 'n, 'r) Services \<Rightarrow> ('h, 'n, 'r) Daemon \<Rightarrow> string \<Rightarrow> int \<Rightarrow> (nat \<Rightarrow> Sandbox result) \<Rightarrow> (nat \<Rightarrow> Exit result) \<Rightarrow> (nat \<Rightarrow> error option) \<Rightarrow> ('h, 'n, 'r) Daemon \<times> error option option" where
  "Stop svc d ref seconds obs saved ctx =
     (case Stop_request svc d ref seconds of
        (d1, Inl e) \<Rightarrow> (d1, Some (Some e))
      | (d1, Inr None) \<Rightarrow> (d1, Some None)
      | (d1, Inr (Some sid)) \<Rightarrow> (d1, map_option (\<lambda>r. case r of Inl e \<Rightarrow> Some e | Inr _ \<Rightarrow> None) (Wait obs saved ctx 0)))"

section \<open>Removing\<close>

definition Remove :: "('h, 'n, 'r) Services \<Rightarrow> ('h, 'n, 'r) Daemon \<Rightarrow> string \<Rightarrow> bool \<Rightarrow> ('h, 'n, 'r) Daemon \<times> error option" where
  "Remove svc d ref force =
     (case d_Get svc d ref of (d1, Inl e) \<Rightarrow> (d1, Some e) | (d1, Inr v1) \<Rightarrow>
      (case d_Get svc d1 (Sandbox_ID v1) of (d2, Inl e) \<Rightarrow> (d2, Some e) | (d2, Inr v) \<Rightarrow>
       if Sandbox_State v \<in> {''running'', ''starting'', ''stopping''} \<and> \<not> force then (d2, Some (Errorf ''container running; use rm -f''))
       else case d_Kill svc v (d_Intent svc d2 (Sandbox_ID v) ''remove'') of (d3, Some e) \<Rightarrow> (d3, Some e) | (d3, None) \<Rightarrow>
       (case d_RemoveNet svc v (stopDNS svc d3 (Sandbox_ID v)) of (d4, Some e) \<Rightarrow> (d4, Some e) | (d4, None) \<Rightarrow>
        (case d_RemoveVM svc v d4 of (d5, Some e) \<Rightarrow> (d5, Some e) | (d5, None) \<Rightarrow>
         (let d6 = fst (d_Update svc d5 (Sandbox_ID v) (\<lambda>s. Inr (s\<lparr>Sandbox_State := ''removing''\<rparr>))) in
          case on_repo (\<lambda>r. Repo_RemoveAll (Svc_Repo svc) r (dir d (Sandbox_ID v))) d6 of (d7, Some e) \<Rightarrow> (d7, Some e) | (d7, None) \<Rightarrow>
          d_Delete svc d7 (Sandbox_ID v))))))"

section \<open>Recovery\<close>

definition kill_release :: "('h, 'n, 'r) Services \<Rightarrow> bool \<Rightarrow> Sandbox \<Rightarrow> ('h, 'n, 'r) Daemon \<Rightarrow> ('h, 'n, 'r) Daemon \<times> bool" where
  "kill_release svc dns v d =
     (case d_Kill svc v d of
        (d1, Some e) \<Rightarrow> (d1, False)
      | (d1, None) \<Rightarrow>
          (let (d2, netErr, vmErr) = release svc (if dns then stopDNS svc d1 (Sandbox_ID v) else d1) v in (d2, netErr = None \<and> vmErr = None)))"

definition recover_one :: "('h, 'n, 'r) Services \<Rightarrow> ('h, 'n, 'r) Daemon \<Rightarrow> Sandbox \<Rightarrow> ('h, 'n, 'r) Daemon \<times> error option" where
  "recover_one svc d v =
     (if Sandbox_State v \<in> {''running'', ''stopping''} then
        if VM_Alive (Svc_VM svc) (Daemon_vm d) v then
          (case reservePorts svc d v of (d1, Some e) \<Rightarrow> (d1, Some e) | (d1, None) \<Rightarrow>
           (case (if Spec_Network (Sandbox_Spec v) = ''bridge'' then startDNS svc d1 v else (d1, None)) of
              (d2, Some e) \<Rightarrow> (d2, Some e)
            | (d2, None) \<Rightarrow> (monitor_register d2 v, None)))
        else (finish svc d v (Some \<lparr>Exit_Code = None, Exit_Reason = ''host/VMM stopped; application exit unknown'', Exit_OOM = False, Exit_At = d_now svc d\<rparr>), None)
      else if Sandbox_State v \<in> {''creating'', ''starting'', ''removing''} then
        (let (d1, released) = kill_release svc False v d in
         (fst (d_Update svc d1 (Sandbox_ID v) (\<lambda>s. Inr (s\<lparr>Sandbox_State := ''failed'',
            Sandbox_Reason := ''interrupted operation; remove and recreate'', Sandbox_VMResourcesReleased := released\<rparr>))), None))
      else if Sandbox_State v = ''failed'' \<and> \<not> Sandbox_VMResourcesReleased v then
        (let (d1, released) = kill_release svc True v d in
         (if released then fst (d_Update svc d1 (Sandbox_ID v) (\<lambda>s. Inr (s\<lparr>Sandbox_PID := 0, Sandbox_PIDStart := [], Sandbox_VMResourcesReleased := True\<rparr>)))
          else d1, None))
      else (d, None))"

fun recover_all :: "('h, 'n, 'r) Services \<Rightarrow> ('h, 'n, 'r) Daemon \<Rightarrow> Sandbox list \<Rightarrow> ('h, 'n, 'r) Daemon \<times> error option" where
  "recover_all svc d [] = (d, None)"
| "recover_all svc d (v # vs) =
     (case recover_one svc d v of (d1, Some e) \<Rightarrow> (d1, Some e) | (d1, None) \<Rightarrow> recover_all svc d1 vs)"

definition Recover :: "('h, 'n, 'r) Services \<Rightarrow> ('h, 'n, 'r) Daemon \<Rightarrow> ('h, 'n, 'r) Daemon \<times> error option" where
  "Recover svc d = (case d_List svc d of (d1, Inl e) \<Rightarrow> (d1, Some e) | (d1, Inr all) \<Rightarrow> recover_all svc d1 all)"

end
