(* ===== verification/LifecycleInv.thy ===== *)
theory LifecycleInv
  imports Lifecycle
begin

text \<open>
  The effect of each handler of the sandbox lifecycle on records and machines.
  The interface \<open>vm_backend\<close> says what the daemon relies on in a virtual machine backend: only
  \<open>Start\<close> makes a machine live, and only that of its sandbox, and \<open>Kill\<close> returns nil only when the
  machine is gone.  On top of it the theory shows, for each handler, which records and machines
  it may affect: the record keeps its identity, specification and slot, records of other
  sandboxes stay, and a machine that is live afterwards has a record that holds its resources.
\<close>

section \<open>Records that only move through their life\<close>

definition rec :: "('h, 'n, 'r) Daemon \<Rightarrow> string \<Rightarrow> Sandbox option" where
  "rec d sid = sandbox_of (Daemon_Store d) sid"

definition same_core :: "Sandbox \<Rightarrow> Sandbox \<Rightarrow> bool" where
  "same_core u v \<longleftrightarrow> Sandbox_ID u = Sandbox_ID v \<and> Sandbox_Name u = Sandbox_Name v \<and> Sandbox_Spec u = Sandbox_Spec v \<and> Sandbox_Slot u = Sandbox_Slot v"

definition core_le :: "Store \<Rightarrow> Store \<Rightarrow> bool" where
  "core_le st st' \<longleftrightarrow> store_inv st' \<and> volume_of st' = volume_of st \<and>
     (\<forall>i v. sandbox_of st' i = Some v \<longrightarrow> (\<exists>u. sandbox_of st i = Some u \<and> same_core u v))"

lemma same_core_refl [simp]: "same_core u u"
  by (simp add: same_core_def)

lemma same_core_trans: "same_core u v \<Longrightarrow> same_core v w \<Longrightarrow> same_core u w"
  by (simp add: same_core_def)

lemma core_le_refl: "store_inv st \<Longrightarrow> core_le st st"
  by (auto simp: core_le_def)

lemma core_le_trans: "core_le a b \<Longrightarrow> core_le b c \<Longrightarrow> core_le a c"
  unfolding core_le_def by (intro conjI) (simp, simp, blast intro: same_core_trans)

lemma reserves_upd [simp]:
  "reservesVMResources (x\<lparr>Sandbox_PID := a\<rparr>) = reservesVMResources x"
  "reservesVMResources (x\<lparr>Sandbox_PIDStart := b\<rparr>) = reservesVMResources x"
  "reservesVMResources (x\<lparr>Sandbox_Reason := b\<rparr>) = reservesVMResources x"
  "reservesVMResources (x\<lparr>Sandbox_Updated := a\<rparr>) = reservesVMResources x"
  by (simp_all add: reservesVMResources_def)

section \<open>What leaves the records and the machines alone\<close>

lemma frames [simp]:
  "Daemon_Store (called d) = Daemon_Store d" "Daemon_vm (called d) = Daemon_vm d"
  "Daemon_Store (stopDNS svc d i) = Daemon_Store d" "Daemon_vm (stopDNS svc d i) = Daemon_vm d"
  "Daemon_Store (monitor_register d v) = Daemon_Store d" "Daemon_vm (monitor_register d v) = Daemon_vm d"
  "Daemon_vm (d_Intent svc d i a) = Daemon_vm d"
  by (simp_all add: called_def stopDNS_def Let_def monitor_register_def d_Intent_def)

lemma on_frames [simp]:
  "Daemon_Store (fst (on_net f d)) = Daemon_Store d" "Daemon_vm (fst (on_net f d)) = Daemon_vm d"
  "Daemon_Store (fst (on_repo g d)) = Daemon_Store d" "Daemon_vm (fst (on_repo g d)) = Daemon_vm d"
  "Daemon_Store (fst (on_vm k d)) = Daemon_Store d"
  by (simp_all add: on_net_def on_repo_def on_vm_def split: prod.split)

lemma on_netD: "on_net f d = (d', r) \<Longrightarrow> Daemon_Store d' = Daemon_Store d \<and> Daemon_vm d' = Daemon_vm d"
  using on_frames(1,2) [of f d] by simp

lemma on_repoD: "on_repo f d = (d', r) \<Longrightarrow> Daemon_Store d' = Daemon_Store d \<and> Daemon_vm d' = Daemon_vm d"
  using on_frames(3,4) [of f d] by simp

lemma on_vmD: "on_vm f d = (d', r) \<Longrightarrow> Daemon_Store d' = Daemon_Store d \<and> f (Daemon_vm d) = (Daemon_vm d', r)"
  by (auto simp: on_vm_def split: prod.splits)

lemma listen_all_frames:
  "listen_all svc d held ps = (d', r) \<Longrightarrow> Daemon_Store d' = Daemon_Store d \<and> Daemon_vm d' = Daemon_vm d"
proof (induction ps arbitrary: d held)
  case (Cons p ps)
  obtain d1 e where n: "on_net (\<lambda>n. Net_Listen (Svc_Net svc) n p) d = (d1, e)" by (rule prod.exhaust)
  show ?case
  proof (cases e)
    case None
    with Cons.prems n Cons.IH [of d1] on_netD [OF n] show ?thesis by simp
  next
    case (Some x)
    with Cons.prems n on_netD [OF n] show ?thesis by auto
  qed
qed simp

lemma reservePorts_frames:
  assumes "reservePorts svc d v = (d', r)"
  shows "Daemon_Store d' = Daemon_Store d \<and> Daemon_vm d' = Daemon_vm d"
proof -
  obtain d1 x where l: "listen_all svc d [] (Spec_Ports (Sandbox_Spec v)) = (d1, x)" by (rule prod.exhaust)
  show ?thesis
    using assms listen_all_frames [OF l] unfolding reservePorts_def l by (cases x) (auto split: if_splits)
qed

lemma startDNS_frames:
  assumes "startDNS svc d v = (d', r)"
  shows "Daemon_Store d' = Daemon_Store d \<and> Daemon_vm d' = Daemon_vm d"
proof (cases "For (Sandbox_ID v) (Sandbox_Slot v)")
  case (Inr c)
  obtain d1 x where l: "on_net (\<lambda>n. Net_DNS (Svc_Net svc) n (Config_HostIP c) (DaemonConfig_DNSUpstream (Daemon_Config d))) d = (d1, x)"
    by (rule prod.exhaust)
  show ?thesis
    using assms on_netD [OF l] unfolding startDNS_def Inr sum.case l by (cases x) (auto split: if_splits)
qed (use assms in \<open>simp add: startDNS_def\<close>)

lemma boot_network_frames:
  assumes "boot_network svc d v = (d', r)"
  shows "Daemon_vm d' = Daemon_vm d \<and> Daemon_Store d' = Daemon_Store (d_Intent svc d (Sandbox_ID v) ''prepare-network'')"
proof -
  obtain d1 e1 where 1: "reservePorts svc (d_Intent svc d (Sandbox_ID v) ''prepare-network'') v = (d1, e1)" by (rule prod.exhaust)
  obtain d2 e2 where 2: "on_net (\<lambda>n. Net_Prepare (Svc_Net svc) n v) d1 = (d2, e2)" by (rule prod.exhaust)
  show ?thesis
    using assms reservePorts_frames [OF 1] on_netD [OF 2] startDNS_frames [of svc d2 v]
    unfolding boot_network_def 1 prod.case
    by (cases e1; cases e2) (auto simp: 2 split: if_splits)
qed

lemma rec_Intent [simp]:
  "store_inv (Daemon_Store (d_Intent svc d i a)) = store_inv (Daemon_Store d)" "rec (d_Intent svc d i a) = rec d"
  "sandbox_of (Daemon_Store (d_Intent svc d i a)) = sandbox_of (Daemon_Store d)"
  "volume_of (Daemon_Store (d_Intent svc d i a)) = volume_of (Daemon_Store d)"
  by (simp_all add: d_Intent_def rec_def fun_eq_iff)

section \<open>The interface of a backend\<close>

locale vm_backend =
  fixes vm :: "'h Backend"
    and live :: "'h \<Rightarrow> string \<Rightarrow> bool"
    and hinv :: "'h \<Rightarrow> bool"
    and good :: "string \<Rightarrow> bool"
  assumes start_law: "hinv h \<Longrightarrow> good (Sandbox_ID v) \<Longrightarrow> \<not> live h (Sandbox_ID v) \<Longrightarrow> VM_Start vm h v b = (h', r) \<Longrightarrow>
      hinv h' \<and> (\<forall>i. live h' i \<longrightarrow> live h i \<or> i = Sandbox_ID v)"
    and kill_law: "hinv h \<Longrightarrow> VM_Kill vm h v = (h', e) \<Longrightarrow>
      hinv h' \<and> (\<forall>i. live h' i \<longrightarrow> live h i) \<and> (e = None \<longrightarrow> \<not> live h' (Sandbox_ID v))"
    and remove_law: "hinv h \<Longrightarrow> good (Sandbox_ID v) \<Longrightarrow> \<not> live h (Sandbox_ID v) \<Longrightarrow> VM_Remove vm h v = (h', e) \<Longrightarrow>
      hinv h' \<and> (\<forall>i. live h' i \<longrightarrow> live h i)"
    and ready_law: "hinv h \<Longrightarrow> VM_Ready vm h v = (h', e) \<Longrightarrow> hinv h' \<and> (\<forall>i. live h' i \<longrightarrow> live h i)"
    and call_law: "hinv h \<Longrightarrow> VM_Call vm h v q = (h', a) \<Longrightarrow> hinv h' \<and> (\<forall>i. live h' i \<longrightarrow> live h i)"
    and await_law: "hinv h \<Longrightarrow> hinv (VM_Await vm h v) \<and> (\<forall>i. live (VM_Await vm h v) i \<longrightarrow> live h i)"
begin

text \<open>Every live machine has a record that holds its resources.\<close>

definition covered :: "('h, 'n, 'r) Daemon \<Rightarrow> bool" where
  "covered d \<longleftrightarrow> hinv (Daemon_vm d) \<and> store_inv (Daemon_Store d) \<and>
     (\<forall>i. live (Daemon_vm d) i \<longrightarrow> (\<exists>u. rec d i = Some u \<and> reservesVMResources u))"

text \<open>The effect a handler for sandbox \<open>s\<close> may have: other records stay, its own keeps its identity,
  specification and slot, and no machine becomes live, except that of \<open>s\<close> when \<open>b\<close> says so.\<close>

definition eff :: "bool \<Rightarrow> string \<Rightarrow> ('h, 'n, 'r) Daemon \<Rightarrow> ('h, 'n, 'r) Daemon \<Rightarrow> bool" where
  "eff b s d d' \<longleftrightarrow> covered d' \<and> core_le (Daemon_Store d) (Daemon_Store d') \<and> (\<forall>i. i \<noteq> s \<longrightarrow> rec d' i = rec d i) \<and>
     (\<forall>i. live (Daemon_vm d') i \<longrightarrow> live (Daemon_vm d) i \<or> b \<and> i = s)"

lemma eff_covered: "eff b s d d' \<Longrightarrow> covered d'"
  by (simp add: eff_def)

lemma eff_same: "covered d \<Longrightarrow> Daemon_Store d' = Daemon_Store d \<Longrightarrow> Daemon_vm d' = Daemon_vm d \<Longrightarrow> eff b s d d'"
  by (auto simp: eff_def covered_def rec_def intro: core_le_refl)

lemma eff_refl: "covered d \<Longrightarrow> eff b s d d"
  by (rule eff_same) simp_all

lemma eff_trans: "eff b s d d1 \<Longrightarrow> eff b s d1 d2 \<Longrightarrow> eff b s d d2"
  unfolding eff_def using core_le_trans by fastforce

lemma eff_Intent: "covered d \<Longrightarrow> eff b s d (d_Intent svc d i a)"
  by (auto simp: eff_def covered_def core_le_def rec_def [of d])

lemma eff_vm:
  assumes "covered d" "on_vm f d = (d', r)" "hinv (Daemon_vm d')" "\<And>i. live (Daemon_vm d') i \<Longrightarrow> live (Daemon_vm d) i"
  shows "eff b s d d'"
  using assms(1,3,4) on_vmD [OF assms(2)] by (auto simp: eff_def covered_def rec_def intro: core_le_refl)

lemma d_Update_cases:
  assumes "store_inv (Daemon_Store d)" "d_Update svc d s fn = (d', e)"
  obtains (err) x where "e = Some x" "Daemon_Store d' = Daemon_Store d" "Daemon_vm d' = Daemon_vm d"
  | (ok) u v where "e = None" "rec d s = Some u" "fn u = Inr v" "rec d' = (rec d)(s \<mapsto> v\<lparr>Sandbox_Updated := d_now svc d\<rparr>)"
      "volume_of (Daemon_Store d') = volume_of (Daemon_Store d)" "Daemon_vm d' = Daemon_vm d"
      "keeps_identity fn u \<Longrightarrow> store_inv (Daemon_Store d')"
proof -
  obtain st x where u: "Update (d_db svc d) (d_now svc d) (Daemon_Store d) s fn = (st, x)" by (rule prod.exhaust)
  have d': "d' = (called d)\<lparr>Daemon_Store := st\<rparr>" "e = x" using assms(2) u by (simp_all add: d_Update_def)
  show thesis
  proof (cases x)
    case None
    with u have u': "Update (d_db svc d) (d_now svc d) (Daemon_Store d) s fn = (st, None)" by simp
    show thesis
      by (rule Update_ok [OF assms(1) u'], rule ok) (use d' None in \<open>auto simp: rec_def fun_eq_iff\<close>)
  next
    case (Some y)
    with u Update_err show thesis by (intro err [of y]) (auto simp: d')
  qed
qed

lemma eff_Update:
  assumes "covered d" "d_Update svc d s fn = (d', e)"
    and "\<And>x y. rec d s = Some x \<Longrightarrow> fn x = Inr y \<Longrightarrow> same_core x y \<and> (live (Daemon_vm d) s \<longrightarrow> reservesVMResources y)"
  shows "eff b s d d'"
proof -
  have st: "store_inv (Daemon_Store d)" using assms(1) by (simp add: covered_def)
  from st assms(2) show ?thesis
  proof (cases rule: d_Update_cases)
    case (err x)
    with assms(1) show ?thesis by (intro eff_same)
  next
    case (ok u v)
    then have s: "same_core u v" "live (Daemon_vm d) s \<longrightarrow> reservesVMResources v" using assms(3) by blast+
    then have "keeps_identity fn u" using ok(3) by (simp add: keeps_identity_def same_core_def)
    then have "store_inv (Daemon_Store d')" by (rule ok(7))
    moreover have "reservesVMResources (v\<lparr>Sandbox_Updated := d_now svc d\<rparr>) = reservesVMResources v"
      "same_core u (v\<lparr>Sandbox_Updated := d_now svc d\<rparr>)" using s(1) by (simp_all add: reservesVMResources_def same_core_def)
    ultimately show ?thesis
      using assms(1) ok s by (auto simp: eff_def covered_def core_le_def rec_def fun_eq_iff)
  qed
qed

lemma eff_Delete:
  assumes "covered d" "\<not> live (Daemon_vm d) s" "d_Delete svc d s = (d', e)"
  shows "eff b s d d'"
proof -
  obtain st x where u: "Delete (d_db svc d) (Daemon_Store d) s = (st, x)" by (rule prod.exhaust)
  have d': "d' = (called d)\<lparr>Daemon_Store := st\<rparr>" using assms(3) u by (simp add: d_Delete_def)
  show ?thesis
  proof (cases x)
    case None
    have "store_inv (Daemon_Store d)" using assms(1) by (simp add: covered_def)
    from Delete_ok [OF this u [unfolded None]] assms(1,2) show ?thesis
      unfolding d' by (auto simp: eff_def covered_def core_le_def rec_def)
  next
    case (Some y)
    with u Delete_err have "st = Daemon_Store d" by blast
    with assms(1) show ?thesis unfolding d' by (intro eff_same) simp_all
  qed
qed

text \<open>The handlers, from the inside out.\<close>

lemma eff_Kill:
  assumes "Svc_VM svc = vm" "covered d" "d_Kill svc v d = (d', e)"
  shows "eff b s d d' \<and> (e = None \<longrightarrow> \<not> live (Daemon_vm d') (Sandbox_ID v)) \<and> Daemon_Store d' = Daemon_Store d"
proof -
  note k = assms(3) [unfolded d_Kill_def]
  have "hinv (Daemon_vm d)" using assms(2) by (simp add: covered_def)
  moreover have f: "VM_Kill vm (Daemon_vm d) v = (Daemon_vm d', e)" "Daemon_Store d' = Daemon_Store d"
    using on_vmD [OF k] assms(1) by simp_all
  ultimately have "hinv (Daemon_vm d')" "\<And>i. live (Daemon_vm d') i \<Longrightarrow> live (Daemon_vm d) i"
    "e = None \<longrightarrow> \<not> live (Daemon_vm d') (Sandbox_ID v)" using kill_law by blast+
  with f(2) show ?thesis using eff_vm [OF assms(2) k] by blast
qed

lemma eff_release:
  assumes "Svc_VM svc = vm" "covered d" "\<not> live (Daemon_vm d) (Sandbox_ID v)" "release svc d v = (d', n, e)"
    and good: "good (Sandbox_ID v)"
  shows "eff b s d d' \<and> \<not> live (Daemon_vm d') (Sandbox_ID v)"
proof -
  obtain d1 x where 1: "d_RemoveNet svc v d = (d1, x)" by (rule prod.exhaust)
  obtain d2 y where 2: "d_RemoveVM svc v d1 = (d2, y)" by (rule prod.exhaust)
  have d': "d' = d2" using assms(4) 1 2 by (simp add: release_def)
  note n = on_netD [OF 1 [unfolded d_RemoveNet_def]]
  have e1: "eff b s d d1" using n by (intro eff_same [OF assms(2)]) simp_all
  note r = 2 [unfolded d_RemoveVM_def]
  have "hinv (Daemon_vm d1)" "\<not> live (Daemon_vm d1) (Sandbox_ID v)" using assms(2,3) n by (simp_all add: covered_def)
  moreover have "VM_Remove vm (Daemon_vm d1) v = (Daemon_vm d2, y)" using on_vmD [OF r] assms(1) by simp
  ultimately have l: "hinv (Daemon_vm d2)" "\<And>i. live (Daemon_vm d2) i \<Longrightarrow> live (Daemon_vm d1) i" using remove_law good by blast+
  have "eff b s d1 d2" using eff_vm [OF eff_covered [OF e1] r l] .
  with e1 l(2) show ?thesis using eff_trans assms(3) n unfolding d' by metis
qed

lemma eff_on_vm_call:
  assumes "Svc_VM svc = vm" "covered d" "on_vm (\<lambda>h. VM_Call (Svc_VM svc) h v q) d = (d', a)"
  shows "eff b s d d'"
proof -
  have "hinv (Daemon_vm d)" using assms(2) by (simp add: covered_def)
  moreover have "VM_Call vm (Daemon_vm d) v q = (Daemon_vm d', a)" using on_vmD [OF assms(3)] assms(1) by simp
  ultimately have "hinv (Daemon_vm d')" "\<And>i. live (Daemon_vm d') i \<Longrightarrow> live (Daemon_vm d) i" using call_law by blast+
  then show ?thesis by (rule eff_vm [OF assms(2,3)])
qed

lemma eff_on_vm_ready:
  assumes "Svc_VM svc = vm" "covered d" "on_vm (\<lambda>h. VM_Ready (Svc_VM svc) h v) d = (d', e)"
  shows "eff b s d d'"
proof -
  have "hinv (Daemon_vm d)" using assms(2) by (simp add: covered_def)
  moreover have "VM_Ready vm (Daemon_vm d) v = (Daemon_vm d', e)" using on_vmD [OF assms(3)] assms(1) by simp
  ultimately have "hinv (Daemon_vm d')" "\<And>i. live (Daemon_vm d') i \<Longrightarrow> live (Daemon_vm d) i" using ready_law by blast+
  then show ?thesis by (rule eff_vm [OF assms(2,3)])
qed

lemma Transition_core: "Transition to r x = Inr y \<Longrightarrow> same_core x y"
  by (auto simp: Transition_def same_core_def split: if_splits)

lemma Transition_state: "Transition to r x = Inr y \<Longrightarrow> Sandbox_State y = to \<and> Sandbox_VMResourcesReleased y = Sandbox_VMResourcesReleased x"
  by (auto simp: Transition_def split: if_splits)

lemma eff_Start_fail:
  assumes "Svc_VM svc = vm" "covered d" "Start_fail svc v d err = (d', r)"
    and good: "good (Sandbox_ID v)"
  shows "eff b (Sandbox_ID v) d d'"
proof -
  obtain d1 ke where k: "d_Kill svc v d = (d1, ke)" by (rule prod.exhaust)
  have e1: "eff b (Sandbox_ID v) d d1" and dead: "ke = None \<longrightarrow> \<not> live (Daemon_vm d1) (Sandbox_ID v)"
    using eff_Kill [OF assms(1,2) k] by blast+
  note c1 = eff_covered [OF e1]
  define fn where "fn = (\<lambda>released reason x. Transition ''failed'' reason
     (x\<lparr>Sandbox_PID := Sandbox_PID v, Sandbox_PIDStart := Sandbox_PIDStart v, Sandbox_VMResourcesReleased := released\<rparr>))"
  have upd: "eff b (Sandbox_ID v) d2 d3"
    if "covered d2" "d_Update svc d2 (Sandbox_ID v) (fn released reason) = (d3, e)" "released \<longrightarrow> \<not> live (Daemon_vm d2) (Sandbox_ID v)"
    for d2 d3 e released reason
  proof (rule eff_Update [OF that(1,2)])
    fix x y assume "fn released reason x = Inr y"
    with Transition_core Transition_state have "same_core x y" "Sandbox_State y = ''failed'' \<and> Sandbox_VMResourcesReleased y = released"
      unfolding fn_def same_core_def by fastforce+
    with that(3) show "same_core x y \<and> (live (Daemon_vm d2) (Sandbox_ID v) \<longrightarrow> reservesVMResources y)"
      by (auto simp: reservesVMResources_def)
  qed
  show ?thesis
  proof (cases ke)
    case None
    obtain d2 n e where r: "release svc (stopDNS svc d1 (Sandbox_ID v)) v = (d2, n, e)" by (metis prod.exhaust)
    have s1: "eff b (Sandbox_ID v) d1 (stopDNS svc d1 (Sandbox_ID v))" by (rule eff_same [OF c1]) simp_all
    have r2: "eff b (Sandbox_ID v) (stopDNS svc d1 (Sandbox_ID v)) d2 \<and> \<not> live (Daemon_vm d2) (Sandbox_ID v)"
      using eff_release [OF assms(1) eff_covered [OF s1] _ r good] dead None by simp
    obtain d3 x where u: "d_Update svc d2 (Sandbox_ID v) (fn (n = None \<and> e = None) (error_text err)) = (d3, x)" by (rule prod.exhaust)
    have "d' = d3" using assms(3) u unfolding Start_fail_def Let_def k None prod.case option.case r by (simp add: fn_def)
    with upd [OF eff_covered u] r2 e1 s1 show ?thesis using eff_trans by blast
  next
    case (Some x)
    obtain d3 y where u: "d_Update svc d1 (Sandbox_ID v) (fn False (error_text err @ ''; VMM termination failed: '' @ error_text x)) = (d3, y)"
      by (rule prod.exhaust)
    have "d' = d3" using assms(3) u unfolding Start_fail_def Let_def k Some prod.case option.case by (simp add: fn_def)
    with upd [OF c1 u] e1 show ?thesis using eff_trans by blast
  qed
qed

lemma eff_boot_workload:
  assumes "Svc_VM svc = vm" "covered d" "boot_workload svc d v = (d', r)"
    and good: "good (Sandbox_ID v)"
  shows "eff b (Sandbox_ID v) d d'"
proof -
  let ?s = "Sandbox_ID v"
  obtain d1 e1 where 1: "d_Update svc d ?s (\<lambda>x. Inr (x\<lparr>Sandbox_PID := Sandbox_PID v, Sandbox_PIDStart := Sandbox_PIDStart v\<rparr>)) = (d1, e1)"
    by (rule prod.exhaust)
  have E1: "eff b ?s d d1"
  proof (rule eff_Update [OF assms(2) 1])
    fix x y assume x: "rec d ?s = Some x" and "Inr (x\<lparr>Sandbox_PID := Sandbox_PID v, Sandbox_PIDStart := Sandbox_PIDStart v\<rparr>) = Inr y"
    then have y: "y = x\<lparr>Sandbox_PID := Sandbox_PID v, Sandbox_PIDStart := Sandbox_PIDStart v\<rparr>" by simp
    have "live (Daemon_vm d) ?s \<longrightarrow> reservesVMResources x" using assms(2) x by (auto simp: covered_def)
    then show "same_core x y \<and> (live (Daemon_vm d) ?s \<longrightarrow> reservesVMResources y)" unfolding y by (simp add: same_core_def)
  qed
  obtain d2 e2 where 2: "on_vm (\<lambda>h. VM_Ready (Svc_VM svc) h v) d1 = (d2, e2)" by (rule prod.exhaust)
  have E2: "eff b ?s d d2" using eff_on_vm_ready [OF assms(1) eff_covered [OF E1] 2] E1 eff_trans by blast
  obtain d3 e3 where 3: "on_vm (\<lambda>h. VM_Call (Svc_VM svc) h v (Request0\<lparr>Request_Action := ''start'', Request_Operation := operation_id v\<rparr>)) d2 = (d3, e3)"
    by (rule prod.exhaust)
  have E3: "eff b ?s d d3" using eff_on_vm_call [OF assms(1) eff_covered [OF E2] 3] E2 eff_trans by blast
  obtain d4 e4 where 4: "d_Update svc d3 ?s (Transition ''running'' []) = (d4, e4)" by (rule prod.exhaust)
  have "eff b ?s d3 d4"
  proof (rule eff_Update [OF eff_covered [OF E3] 4])
    fix x y assume "Transition ''running'' [] x = Inr y"
    then show "same_core x y \<and> (live (Daemon_vm d3) ?s \<longrightarrow> reservesVMResources y)"
      using Transition_core Transition_state by (fastforce simp: reservesVMResources_def)
  qed
  with E3 have E4: "eff b ?s d d4" using eff_trans by blast
  have fl: "eff b ?s d d'" if "eff b ?s d dx" "Start_fail svc v dx e = (d', r)" for dx e
    using that(1) eff_Start_fail [OF assms(1) eff_covered [OF that(1)] that(2) good] by (rule eff_trans)
  have "eff b ?s d4 (monitor_register d4 u)" for u by (rule eff_same [OF eff_covered [OF E4]]) simp_all
  then have E5: "eff b ?s d (monitor_register d4 u)" for u using E4 eff_trans by blast
  note body = assms(3) [unfolded boot_workload_def 1 prod.case]
  show ?thesis
  proof (cases e1)
    case (Some e)
    with body fl [OF E1] show ?thesis by simp
  next
    case n1: None
    show ?thesis
    proof (cases e2)
      case (Some e)
      with body n1 2 fl [OF E2] show ?thesis by simp
    next
      case n2: None
      show ?thesis
      proof (cases e3)
        case (Inl e)
        with body n1 n2 2 3 fl [OF E3] show ?thesis by simp
      next
        case (Inr a)
        with body n1 n2 2 3 4 fl [OF E4] E5 show ?thesis by (cases e4) (auto simp: Let_def)
      qed
    qed
  qed
qed

lemma eff_Start_boot:
  assumes "Svc_VM svc = vm" "covered d" "\<not> live (Daemon_vm d) (Sandbox_ID v)"
    and "rec d (Sandbox_ID v) = Some u" "reservesVMResources u" "Start_boot svc d v b = (d', r)"
    and good: "good (Sandbox_ID v)"
  shows "eff True (Sandbox_ID v) d d'"
proof -
  let ?s = "Sandbox_ID v"
  obtain d1 e1 where 1: "boot_network svc d v = (d1, e1)" by (rule prod.exhaust)
  note f1 = boot_network_frames [OF 1]
  have E1: "eff True ?s d d1"
    using eff_trans [OF eff_Intent [OF assms(2)] eff_same [OF eff_covered [OF eff_Intent [OF assms(2)]]]] f1 by simp
  show ?thesis
  proof (cases e1)
    case (Some e)
    then have "Start_fail svc v d1 e = (d', r)" using assms(6) 1 by (simp add: Start_boot_def)
    from eff_trans [OF E1 eff_Start_fail [OF assms(1) eff_covered [OF E1] this good]] show ?thesis .
  next
    case None
    let ?d = "d_Intent svc d1 ?s ''start-vmm''"
    have c: "covered ?d" using eff_covered [OF eff_Intent [OF eff_covered [OF E1]]] .
    have r: "rec ?d = rec d" "Daemon_vm ?d = Daemon_vm d" using f1 by (simp_all add: rec_def fun_eq_iff)
    have E2: "eff True ?s d ?d" using E1 eff_Intent [OF eff_covered [OF E1]] by (rule eff_trans)
    obtain d2 x where 2: "on_vm (\<lambda>h. VM_Start (Svc_VM svc) h v b) ?d = (d2, x)" by (rule prod.exhaust)
    note s2 = on_vmD [OF 2]
    have "hinv (Daemon_vm d)" using assms(2) by (simp add: covered_def)
    moreover have "VM_Start vm (Daemon_vm d) v b = (Daemon_vm d2, x)" using s2 assms(1) r(2) by simp
    ultimately have l: "hinv (Daemon_vm d2)" "\<forall>i. live (Daemon_vm d2) i \<longrightarrow> live (Daemon_vm d) i \<or> i = ?s"
      using start_law good assms(3) by blast+
    have r2: "rec d2 = rec d" using s2 r(1) by (simp add: rec_def fun_eq_iff)
    have "covered d2"
      using c l assms(2,4,5) s2 r2 unfolding covered_def by metis
    moreover have "core_le (Daemon_Store d) (Daemon_Store d2)" using E2 s2 by (simp add: eff_def)
    ultimately have E3: "eff True ?s d d2" using l(2) r2 by (simp add: eff_def)
    show ?thesis
    proof (cases x)
      case (Inl e)
      then have "Start_fail svc (v\<lparr>Sandbox_PID := 0, Sandbox_PIDStart := []\<rparr>) d2 e = (d', r)"
        using assms(6) 1 2 None by (simp add: Start_boot_def)
      from eff_Start_fail [OF assms(1) eff_covered [OF E3] this] good E3 show ?thesis using eff_trans by simp blast
    next
      case (Inr y)
      obtain pid start where y: "y = (pid, start)" by (rule prod.exhaust)
      then have "boot_workload svc d2 (v\<lparr>Sandbox_PID := pid, Sandbox_PIDStart := start\<rparr>) = (d', r)"
        using assms(6) 1 2 None Inr by (simp add: Start_boot_def)
      from eff_boot_workload [OF assms(1) eff_covered [OF E3] this] good E3 show ?thesis using eff_trans by simp blast
    qed
  qed
qed

text \<open>Updates of a sandbox whose machine is not live, and updates that keep its resources reserved.\<close>

lemma eff_Update_dead:
  assumes "covered d" "\<not> live (Daemon_vm d) s" "\<And>x. same_core x (f x)"
  shows "eff b s d (fst (d_Update svc d s (\<lambda>x. Inr (f x))))"
proof -
  obtain d1 e where u: "d_Update svc d s (\<lambda>x. Inr (f x)) = (d1, e)" by (rule prod.exhaust)
  from eff_Update [OF assms(1) u] assms(2,3) show ?thesis unfolding u by auto
qed

lemma eff_Update_held:
  assumes "covered d" "\<And>x. same_core x (f x)" "\<And>x. reservesVMResources (f x)"
  shows "eff b s d (fst (d_Update svc d s (\<lambda>x. Inr (f x))))"
proof -
  obtain d1 e where u: "d_Update svc d s (\<lambda>x. Inr (f x)) = (d1, e)" by (rule prod.exhaust)
  from eff_Update [OF assms(1) u] assms(2,3) show ?thesis unfolding u by auto
qed

lemma Update_vm [simp]: "Daemon_vm (fst (d_Update svc d s fn)) = Daemon_vm d"
  by (simp add: d_Update_def split: prod.split)

lemma eff_current_generation:
  assumes "covered d" "current_generation svc d v = (d', u)"
  shows "eff b s d d'"
  using assms by (auto simp: current_generation_def d_Get_def split: sum.splits intro: eff_same)

lemma eff_shutdown_guest:
  assumes "Svc_VM svc = vm" "covered d"
  shows "eff b s d (shutdown_guest svc v d)"
proof (cases "VM_Client (Svc_VM svc) (Daemon_vm d) v")
  case None
  obtain d1 a where 1: "on_vm (\<lambda>h. VM_Call (Svc_VM svc) h v (Request0\<lparr>Request_Action := ''shutdown''\<rparr>)) d = (d1, a)" by (rule prod.exhaust)
  note E1 = eff_on_vm_call [OF assms 1, of b s]
  show ?thesis
  proof (cases a)
    case (Inl e)
    then show ?thesis using E1 None 1 by (simp add: shutdown_guest_def)
  next
    case (Inr x)
    let ?d = "d1\<lparr>Daemon_vm := VM_Await vm (Daemon_vm d1) v\<rparr>"
    have "hinv (Daemon_vm d1)" using eff_covered [OF E1] by (simp add: covered_def)
    note aw = await_law [OF this, of v]
    have "on_vm (\<lambda>h. (VM_Await vm h v, ())) d1 = (?d, ())" by (simp add: on_vm_def)
    from eff_vm [OF eff_covered [OF E1] this] aw have "eff b s d1 ?d" by simp
    with E1 have "eff b s d ?d" by (rule eff_trans)
    then show ?thesis using None 1 Inr assms(1) by (simp add: shutdown_guest_def)
  qed
qed (use assms(2) in \<open>simp add: shutdown_guest_def eff_refl\<close>)

lemma finished_core: "same_core x (finished exit n e x)"
  by (simp add: finished_def same_core_def Let_def)

lemma eff_auto_remove:
  assumes "Svc_VM svc = vm" "covered d" "\<not> live (Daemon_vm d) (Sandbox_ID v)"
  shows "eff b (Sandbox_ID v) d (auto_remove svc v exit d)"
proof -
  obtain d1 e where 1: "on_repo (\<lambda>r. Repo_SaveResult (Svc_Repo svc) r v exit) d = (d1, e)" by (rule prod.exhaust)
  have E1: "eff b (Sandbox_ID v) d d1" using on_repoD [OF 1] by (intro eff_same [OF assms(2)]) simp_all
  have nl: "\<not> live (Daemon_vm d1) (Sandbox_ID v)" using on_repoD [OF 1] assms(3) by simp
  show ?thesis
  proof (cases e)
    case (Some x)
    have "eff b (Sandbox_ID v) d1 (auto_remove svc v exit d)"
      unfolding auto_remove_def 1 Some prod.case option.case
      by (rule eff_Update_dead [OF eff_covered [OF E1] nl]) (simp add: same_core_def)
    with E1 show ?thesis by (rule eff_trans)
  next
    case None
    let ?d2 = "d_Intent svc d1 (Sandbox_ID v) ''auto-remove''"
    let ?d3 = "fst (on_repo (\<lambda>r. Repo_RemoveAll (Svc_Repo svc) r (dir d (Sandbox_ID v))) ?d2)"
    have E2: "eff b (Sandbox_ID v) d1 ?d2" by (rule eff_Intent [OF eff_covered [OF E1]])
    have E3: "eff b (Sandbox_ID v) ?d2 ?d3" by (rule eff_same [OF eff_covered [OF E2]]) simp_all
    obtain d4 x where 4: "d_Delete svc ?d3 (Sandbox_ID v) = (d4, x)" by (rule prod.exhaust)
    have "eff b (Sandbox_ID v) ?d3 d4" using nl by (intro eff_Delete [OF eff_covered [OF E3] _ 4]) simp
    with E1 E2 E3 have "eff b (Sandbox_ID v) d d4" using eff_trans by blast
    then show ?thesis using 1 None 4 by (simp add: auto_remove_def Let_def)
  qed
qed

lemma eff_finish:
  assumes "Svc_VM svc = vm" "covered d"
    and good: "good (Sandbox_ID v)"
  shows "eff b (Sandbox_ID v) d (finish svc d v exit)"
proof -
  let ?s = "Sandbox_ID v"
  obtain d1 c where 1: "current_generation svc d v = (d1, c)" by (rule prod.exhaust)
  note E1 = eff_current_generation [OF assms(2) 1, of b ?s]
  show ?thesis
  proof (cases c)
    case None
    then show ?thesis using E1 1 by (simp add: finish_def)
  next
    case (Some current)
    have "eff b ?s d1 (shutdown_guest svc v d1)" by (rule eff_shutdown_guest [OF assms(1) eff_covered [OF E1]])
    with E1 have E2: "eff b ?s d (shutdown_guest svc v d1)" by (rule eff_trans)
    obtain d2 e where 2: "d_Kill svc v (shutdown_guest svc v d1) = (d2, e)" by (rule prod.exhaust)
    have "eff b ?s (shutdown_guest svc v d1) d2" and dead: "e = None \<longrightarrow> \<not> live (Daemon_vm d2) ?s"
      using eff_Kill [OF assms(1) eff_covered [OF E2] 2] by blast+
    with E2 have E3: "eff b ?s d d2" using eff_trans by blast
    show ?thesis
    proof (cases e)
      case e: (Some x)
      have "eff b ?s d2 (finish svc d v exit)"
        unfolding finish_def 1 Some 2 e prod.case option.case
        by (rule eff_Update_held [OF eff_covered [OF E3]]) (simp_all add: same_core_def reservesVMResources_def)
      with E3 show ?thesis by (rule eff_trans)
    next
      case None
      have E4: "eff b ?s d2 (stopDNS svc d2 ?s)" by (rule eff_same [OF eff_covered [OF E3]]) simp_all
      obtain d3 n x where 3: "release svc (stopDNS svc d2 ?s) v = (d3, n, x)" by (metis prod.exhaust)
      have E5: "eff b ?s (stopDNS svc d2 ?s) d3" and nl: "\<not> live (Daemon_vm d3) ?s"
        using eff_release [OF assms(1) eff_covered [OF E4] _ 3 good] dead None by simp_all
      let ?d4 = "fst (d_Update svc d3 ?s (\<lambda>s. Inr (finished exit n x s)))"
      have E6: "eff b ?s d3 ?d4" by (rule eff_Update_dead [OF eff_covered [OF E5] nl finished_core])
      have E: "eff b ?s d ?d4" using E3 E4 E5 E6 eff_trans by blast
      have "eff b ?s ?d4 (auto_remove svc v exit ?d4)" using nl by (intro eff_auto_remove [OF assms(1) eff_covered [OF E]]) simp
      with E have "eff b ?s d (auto_remove svc v exit ?d4)" by (rule eff_trans)
      with E show ?thesis using 1 Some 2 None 3 by (auto simp: finish_def Let_def)
    qed
  qed
qed

text \<open>Removal: which sandbox is affected depends on the reference; when it succeeds, the record is
  gone and the machine is not live.\<close>

lemma d_GetD: "d_Get svc d ref = (d', x) \<Longrightarrow> d' = called d \<and> x = Get (d_db svc d) (Daemon_Store d) ref"
  by (simp add: d_Get_def)

lemma eff_Remove_at:
  assumes "Svc_VM svc = vm" "covered d" "Remove svc d ref force = (d', e)"
    and "Get (d_db svc d) (Daemon_Store d) ref = Inr v1" "Get (d_db svc (called d)) (Daemon_Store d) (Sandbox_ID v1) = Inr v"
    and good: "good (Sandbox_ID v)"
  shows "eff b (Sandbox_ID v) d d' \<and> (e = None \<longrightarrow> \<not> live (Daemon_vm d') (Sandbox_ID v) \<and> rec d' (Sandbox_ID v) = None)"
proof -
  let ?s = "Sandbox_ID v" and ?d2 = "called (called d)"
  note body = assms(3) [unfolded Remove_def d_Get_def prod.case assms(4) sum.case frames assms(5)]
  have E2: "eff b ?s d ?d2" by (rule eff_same [OF assms(2)]) simp_all
  have E2': "eff b ?s d (d_Intent svc ?d2 ?s ''remove'')" using E2 eff_Intent [OF eff_covered [OF E2]] by (rule eff_trans)
  show ?thesis
  proof (cases "Sandbox_State v \<in> {''running'', ''starting'', ''stopping''} \<and> \<not> force")
    case True
    then show ?thesis using body E2 by auto
  next
    case go: False
    obtain d3 e3 where 3: "d_Kill svc v (d_Intent svc ?d2 ?s ''remove'') = (d3, e3)" by (rule prod.exhaust)
    have "eff b ?s (d_Intent svc ?d2 ?s ''remove'') d3" and dead: "e3 = None \<longrightarrow> \<not> live (Daemon_vm d3) ?s"
      using eff_Kill [OF assms(1) eff_covered [OF E2'] 3] by blast+
    with E2' have E3: "eff b ?s d d3" using eff_trans by blast
    show ?thesis
    proof (cases e3)
      case (Some x)
      then show ?thesis using body go 3 E3 by auto
    next
      case n3: None
      obtain d4 e4 where 4: "d_RemoveNet svc v (stopDNS svc d3 ?s) = (d4, e4)" by (rule prod.exhaust)
      note f4 = on_netD [OF 4 [unfolded d_RemoveNet_def]]
      have "eff b ?s d3 d4" using f4 by (intro eff_same [OF eff_covered [OF E3]]) simp_all
      with E3 have E4: "eff b ?s d d4" by (rule eff_trans)
      show ?thesis
      proof (cases e4)
        case (Some x)
        then show ?thesis using body go 3 4 n3 E4 by auto
      next
        case n4: None
        obtain d5 e5 where 5: "d_RemoveVM svc v d4 = (d5, e5)" by (rule prod.exhaust)
        note r = 5 [unfolded d_RemoveVM_def]
        have "hinv (Daemon_vm d4)" "\<not> live (Daemon_vm d4) ?s" using eff_covered [OF E4] f4 dead n3 by (simp_all add: covered_def)
        moreover have "VM_Remove vm (Daemon_vm d4) v = (Daemon_vm d5, e5)" using on_vmD [OF r] assms(1) by simp
        ultimately have l: "hinv (Daemon_vm d5)" "\<And>i. live (Daemon_vm d5) i \<Longrightarrow> live (Daemon_vm d4) i" using remove_law good by blast+
        have "eff b ?s d4 d5" using eff_vm [OF eff_covered [OF E4] r l] .
        with E4 have E5: "eff b ?s d d5" by (rule eff_trans)
        have nl: "\<not> live (Daemon_vm d5) ?s" using l(2) \<open>\<not> live (Daemon_vm d4) ?s\<close> by blast
        show ?thesis
        proof (cases e5)
          case (Some x)
          then show ?thesis using body go 3 4 5 n3 n4 E5 by auto
        next
          case n5: None
          let ?d6 = "fst (d_Update svc d5 ?s (\<lambda>s. Inr (s\<lparr>Sandbox_State := ''removing''\<rparr>)))"
          have "eff b ?s d5 ?d6" by (rule eff_Update_dead [OF eff_covered [OF E5] nl]) (simp add: same_core_def)
          with E5 have E6: "eff b ?s d ?d6" by (rule eff_trans)
          obtain d7 e7 where 7: "on_repo (\<lambda>r. Repo_RemoveAll (Svc_Repo svc) r (dir d ?s)) ?d6 = (d7, e7)" by (rule prod.exhaust)
          have "eff b ?s ?d6 d7" using on_repoD [OF 7] by (intro eff_same [OF eff_covered [OF E6]]) simp_all
          with E6 have E7: "eff b ?s d d7" by (rule eff_trans)
          have nl7: "\<not> live (Daemon_vm d7) ?s" using on_repoD [OF 7] nl by simp
          show ?thesis
          proof (cases e7)
            case (Some x)
            then show ?thesis using body go 3 4 5 7 n3 n4 n5 E7 by (auto simp: Let_def)
          next
            case n7: None
            have 8: "d_Delete svc d7 ?s = (d', e)" using body go 3 4 5 7 n3 n4 n5 n7 by (auto simp: Let_def)
            have "eff b ?s d7 d'" by (rule eff_Delete [OF eff_covered [OF E7] nl7 8])
            moreover have "Daemon_vm d' = Daemon_vm d7" using 8 by (auto simp: d_Delete_def split: prod.splits)
            moreover have "rec d' ?s = None" if "e = None"
              using 8 that eff_covered [OF E7] Delete_ok(2)
              by (auto simp: d_Delete_def rec_def covered_def split: prod.splits)
            ultimately show ?thesis using E7 nl7 eff_trans by metis
          qed
        qed
      qed
    qed
  qed
qed

lemma eff_kill_release:
  assumes "Svc_VM svc = vm" "covered d" "kill_release svc dns v d = (d', released)"
    and good: "good (Sandbox_ID v)"
  shows "eff b (Sandbox_ID v) d d' \<and> (released \<longrightarrow> \<not> live (Daemon_vm d') (Sandbox_ID v))"
proof -
  let ?s = "Sandbox_ID v"
  obtain d1 e where 1: "d_Kill svc v d = (d1, e)" by (rule prod.exhaust)
  have E1: "eff b ?s d d1" and dead: "e = None \<longrightarrow> \<not> live (Daemon_vm d1) ?s" using eff_Kill [OF assms(1,2) 1] by blast+
  show ?thesis
  proof (cases e)
    case (Some x)
    then show ?thesis using assms(3) 1 E1 by (simp add: kill_release_def)
  next
    case None
    let ?d = "if dns then stopDNS svc d1 ?s else d1"
    have E2: "eff b ?s d1 ?d" by (rule eff_same [OF eff_covered [OF E1]]) simp_all
    obtain d2 n x where 2: "release svc ?d v = (d2, n, x)" by (metis prod.exhaust)
    have "eff b ?s ?d d2" "\<not> live (Daemon_vm d2) ?s"
      using eff_release [OF assms(1) eff_covered [OF E2] _ 2 good] dead None by simp_all
    moreover have "d' = d2" using assms(3) 1 2 None by (simp add: kill_release_def)
    ultimately show ?thesis using E1 E2 eff_trans by blast
  qed
qed

lemma eff_recover_one:
  assumes "Svc_VM svc = vm" "covered d" "recover_one svc d v = (d', e)"
    and good: "good (Sandbox_ID v)"
  shows "eff b (Sandbox_ID v) d d'"
proof -
  let ?s = "Sandbox_ID v"
  note body = assms(3) [unfolded recover_one_def]
  consider (run) "Sandbox_State v \<in> {''running'', ''stopping''}" "VM_Alive (Svc_VM svc) (Daemon_vm d) v"
    | (dead) "Sandbox_State v \<in> {''running'', ''stopping''}" "\<not> VM_Alive (Svc_VM svc) (Daemon_vm d) v"
    | (cut) "Sandbox_State v \<notin> {''running'', ''stopping''}" "Sandbox_State v \<in> {''creating'', ''starting'', ''removing''}"
    | (failed) "Sandbox_State v \<notin> {''running'', ''stopping''}" "Sandbox_State v \<notin> {''creating'', ''starting'', ''removing''}"
    by blast
  then show ?thesis
  proof cases
    case run
    obtain d1 e1 where 1: "reservePorts svc d v = (d1, e1)" by (rule prod.exhaust)
    obtain d2 e2 where 2: "(if Spec_Network (Sandbox_Spec v) = ''bridge'' then startDNS svc d1 v else (d1, None)) = (d2, e2)" by (rule prod.exhaust)
    have "Daemon_Store d2 = Daemon_Store d1 \<and> Daemon_vm d2 = Daemon_vm d1"
      using 2 startDNS_frames [of svc d1 v d2 e2] by (auto split: if_splits)
    with body run 1 2 reservePorts_frames [OF 1] have "Daemon_Store d' = Daemon_Store d \<and> Daemon_vm d' = Daemon_vm d"
      by (auto split: option.splits)
    then show ?thesis by (intro eff_same [OF assms(2)]) simp_all
  next
    case dead
    then have "d' = finish svc d v (Some \<lparr>Exit_Code = None, Exit_Reason = ''host/VMM stopped; application exit unknown'', Exit_OOM = False, Exit_At = d_now svc d\<rparr>)"
      using body by simp
    then show ?thesis using eff_finish [OF assms(1,2) good] by blast
  next
    case cut
    obtain d1 released where 1: "kill_release svc False v d = (d1, released)" by (rule prod.exhaust)
    have E1: "eff b ?s d d1" and nl: "released \<longrightarrow> \<not> live (Daemon_vm d1) ?s" using eff_kill_release [OF assms(1,2) 1 good] by blast+
    obtain d2 x where 2: "d_Update svc d1 ?s (\<lambda>s. Inr (s\<lparr>Sandbox_State := ''failed'',
            Sandbox_Reason := ''interrupted operation; remove and recreate'', Sandbox_VMResourcesReleased := released\<rparr>)) = (d2, x)" by (rule prod.exhaust)
    have "eff b ?s d1 d2" using nl by (intro eff_Update [OF eff_covered [OF E1] 2]) (auto simp: same_core_def reservesVMResources_def)
    moreover have "d' = d2" using body cut 1 2 by (auto simp: Let_def)
    ultimately show ?thesis using E1 eff_trans by blast
  next
    case failed
    show ?thesis
    proof (cases "Sandbox_State v = ''failed'' \<and> \<not> Sandbox_VMResourcesReleased v")
      case True
      obtain d1 released where 1: "kill_release svc True v d = (d1, released)" by (rule prod.exhaust)
      have E1: "eff b ?s d d1" and nl: "released \<longrightarrow> \<not> live (Daemon_vm d1) ?s" using eff_kill_release [OF assms(1,2) 1 good] by blast+
      have "released \<Longrightarrow> eff b ?s d1 (fst (d_Update svc d1 ?s (\<lambda>s. Inr (s\<lparr>Sandbox_PID := 0, Sandbox_PIDStart := [], Sandbox_VMResourcesReleased := True\<rparr>))))"
        using nl by (intro eff_Update_dead [OF eff_covered [OF E1]]) (simp_all add: same_core_def)
      moreover have "d' = (if released then fst (d_Update svc d1 ?s (\<lambda>s. Inr (s\<lparr>Sandbox_PID := 0, Sandbox_PIDStart := [], Sandbox_VMResourcesReleased := True\<rparr>))) else d1)"
        using body failed True 1 by (simp add: Let_def)
      ultimately show ?thesis using E1 eff_trans by (cases released) auto
    next
      case False
      then have "d' = d" using body failed by auto
      then show ?thesis using assms(2) by (simp add: eff_refl)
    qed
  qed
qed

lemma eff_Stop_request:
  assumes "Svc_VM svc = vm" "covered d" "Stop_request svc d ref secs = (d', r)" "Get (d_db svc d) (Daemon_Store d) ref = Inr v"
    and good: "good (Sandbox_ID v)"
  shows "eff b (Sandbox_ID v) d d'"
proof -
  let ?s = "Sandbox_ID v"
  note body = assms(3) [unfolded Stop_request_def d_Get_def prod.case assms(4) sum.case]
  have E1: "eff b ?s d (called d)" by (rule eff_same [OF assms(2)]) simp_all
  show ?thesis
  proof (cases "Sandbox_State v = ''exited'' \<or> Sandbox_State v = ''created'' \<or> secs < 0 \<or> secs > 300")
    case True
    then show ?thesis using body E1 by (auto split: if_splits)
  next
    case False
    obtain d2 e2 where 2: "d_Update svc (called d) ?s (Transition ''stopping'' []) = (d2, e2)" by (rule prod.exhaust)
    have "eff b ?s (called d) d2"
    proof (rule eff_Update [OF eff_covered [OF E1] 2])
      fix x y assume "Transition ''stopping'' [] x = Inr y"
      then show "same_core x y \<and> (live (Daemon_vm (called d)) ?s \<longrightarrow> reservesVMResources y)"
        using Transition_core Transition_state by (fastforce simp: reservesVMResources_def)
    qed
    with E1 have E2: "eff b ?s d d2" by (rule eff_trans)
    obtain d3 a where 3: "on_vm (\<lambda>h. VM_Call (Svc_VM svc) h v (Request0\<lparr>Request_Action := ''stop'', Request_Timeout := secs\<rparr>)) d2 = (d3, a)"
      by (rule prod.exhaust)
    have "eff b ?s d2 d3" by (rule eff_on_vm_call [OF assms(1) eff_covered [OF E2] 3])
    with E2 have E3: "eff b ?s d d3" by (rule eff_trans)
    have fin: "eff b ?s d (finish svc dx v x)" if "eff b ?s d dx" for dx x
      using that eff_finish [OF assms(1) eff_covered [OF that] good] by (rule eff_trans)
    show ?thesis
    proof (cases "VM_Client (Svc_VM svc) (Daemon_vm d2) v")
      case None
      then show ?thesis using body False 2 3 E3 fin [OF E3] by (auto simp: Let_def)
    next
      case (Some x)
      then show ?thesis using body False 2 fin [OF E2] by (auto simp: Let_def)
    qed
  qed
qed

lemma monitor_drain_law:
  assumes "monitor_drain vm v h c l = Some (h', c', l')" "hinv h"
  shows "hinv h' \<and> (\<forall>i. live h' i \<longrightarrow> live h i)"
proof -
  let ?P = "\<lambda>(vm' :: 'h Backend) v h (c :: nat) (l :: (string \<times> string) list) r. vm' = vm \<longrightarrow> hinv h \<longrightarrow> hinv (fst r) \<and> (\<forall>i. live (fst r) i \<longrightarrow> live h i)"
  have "?P vm v h c l (h', c', l')"
  proof (rule monitor_drain.raw_induct [OF _ assms(1), where P = ?P])
    fix md vm' v h c l and r :: "'h \<times> nat \<times> (string \<times> string) list"
    assume IH: "\<And>vm' v h c l r. md vm' v h c l = Some r \<Longrightarrow> ?P vm' v h c l r"
      and st: "(let out = VM_Call vm' h v (logs_request c);
          fs = (if isl (snd out) then [] else frames_of (projr (snd out)))
         in if fs = [] then Some (fst out, c, l)
         else md vm' v (fst out) (last_sequence c fs) (l @ map (\<lambda>f. (Frame_Type f, Frame_Data f)) fs)) = Some r"
    show "?P vm' v h c l r"
    proof (intro impI)
      assume [simp]: "vm' = vm" and h: "hinv h"
      obtain h1 a where 1: "VM_Call vm h v (logs_request c) = (h1, a)" by (rule prod.exhaust)
      have l1: "hinv h1" "\<forall>i. live h1 i \<longrightarrow> live h i" using call_law [OF h 1] by blast+
      define fs where "fs = (if isl a then [] else frames_of (projr a))"
      have st': "(if fs = [] then Some (h1, c, l)
          else md vm v h1 (last_sequence c fs) (l @ map (\<lambda>f. (Frame_Type f, Frame_Data f)) fs)) = Some r"
        using st by (simp only: Let_def 1 fst_conv snd_conv fs_def \<open>vm' = vm\<close>)
      show "hinv (fst r) \<and> (\<forall>i. live (fst r) i \<longrightarrow> live h i)"
      proof (cases "fs = []")
        case True
        then have "r = (h1, c, l)" using st' by simp
        then show ?thesis using l1 by simp
      next
        case False
        then have "md vm v h1 (last_sequence c fs) (l @ map (\<lambda>f. (Frame_Type f, Frame_Data f)) fs) = Some r" using st' by simp
        from IH [OF this] l1 show ?thesis by blast
      qed
    qed
  qed
  with assms(2) show ?thesis by simp
qed

lemma eff_monitor_poll:
  assumes "Svc_VM svc = vm" "covered d" "monitor_poll svc d v m = Some (d', m', nx)"
  shows "eff b (Sandbox_ID v) d d'"
proof -
  let ?s = "Sandbox_ID v"
  obtain d1 c where 1: "current_generation svc d v = (d1, c)" by (rule prod.exhaust)
  note E1 = eff_current_generation [OF assms(2) 1, of b ?s]
  obtain d2 a where 2: "on_vm (\<lambda>h. VM_Call (Svc_VM svc) h v (logs_request (mon_cursor m))) d1 = (d2, a)" by (rule prod.exhaust)
  have E2: "eff b ?s d d2" using E1 eff_on_vm_call [OF assms(1) eff_covered [OF E1] 2] by (rule eff_trans)
  obtain d3 a2 where 3: "on_vm (\<lambda>h. VM_Call (Svc_VM svc) h v (Request0\<lparr>Request_Action := ''status''\<rparr>)) d2 = (d3, a2)" by (rule prod.exhaust)
  have E3: "eff b ?s d d3" using E2 eff_on_vm_call [OF assms(1) eff_covered [OF E2] 3] by (rule eff_trans)
  have E4: "eff b ?s d (d3\<lparr>Daemon_vm := h\<rparr>)" if dr: "monitor_drain vm v (Daemon_vm d3) x l = Some (h, y, l')" for h x y l l'
  proof -
    have "hinv (Daemon_vm d3)" using eff_covered [OF E3] by (simp add: covered_def)
    note law = monitor_drain_law [OF dr this]
    have "on_vm (\<lambda>_. (h, ())) d3 = (d3\<lparr>Daemon_vm := h\<rparr>, ())" by (simp add: on_vm_def)
    from eff_vm [OF eff_covered [OF E3] this] law E3 show ?thesis using eff_trans by simp blast
  qed
  note body = assms(3) [unfolded monitor_poll_def 1 prod.case]
  show ?thesis
  proof (cases c)
    case None
    then show ?thesis using body E1 by simp
  next
    case c: (Some u)
    show ?thesis
    proof (cases "VM_Client (Svc_VM svc) (Daemon_vm d1) v")
      case (Some e)
      then show ?thesis using body c E1 by (simp add: Let_def)
    next
      case cl: None
      show ?thesis
      proof (cases a)
        case (Inl e)
        then show ?thesis using body c cl 2 E2 by (simp add: Let_def)
      next
        case a: (Inr x)
        show ?thesis
        proof (cases a2)
          case (Inl e)
          then show ?thesis using body c cl a 2 3 E3 by (simp add: Let_def)
        next
          case (Inr y)
          then show ?thesis using body c cl a 2 3 E3 E4 assms(1)
            by (auto simp: Let_def split: if_splits option.splits)
        qed
      qed
    qed
  qed
qed

lemma eff_monitor_end:
  assumes "Svc_VM svc = vm" "covered d"
    and good: "good (Sandbox_ID v)"
  shows "eff b (Sandbox_ID v) d (monitor_end svc d v nx)"
proof -
  let ?d1 = "case nx of MonFinish x \<Rightarrow> finish svc d v (Some x) | _ \<Rightarrow> d"
  have E1: "eff b (Sandbox_ID v) d ?d1"
    using eff_finish [OF assms(1,2) good] eff_refl [OF assms(2)] by (simp split: monitor_next.split)
  have "eff b (Sandbox_ID v) ?d1 (monitor_end svc d v nx)"
    by (rule eff_same [OF eff_covered [OF E1]]) (simp_all add: monitor_end_def Let_def)
  with E1 show ?thesis by (rule eff_trans)
qed

lemma create_core: "create_images svc v d = (d', Inr (img, u)) \<Longrightarrow> same_core v u"
  by (auto simp: create_images_def prepared_def same_core_def Let_def split: prod.splits sum.splits)

lemma create_images_frames:
  assumes "create_images svc v d = (d', r)"
  shows "Daemon_Store d' = Daemon_Store d \<and> Daemon_vm d' = Daemon_vm d"
proof -
  obtain d1 x where 1: "on_repo (\<lambda>r. Repo_PullImage (Svc_Repo svc) r (Spec_Image (Sandbox_Spec v)) (Spec_Pull (Sandbox_Spec v))) d = (d1, x)"
    by (rule prod.exhaust)
  obtain d2 y where 2: "on_repo (\<lambda>r. Repo_PullBase (Svc_Repo svc) r (Spec_Base (Sandbox_Spec v)) (Spec_Pull (Sandbox_Spec v))) d1 = (d2, y)"
    by (rule prod.exhaust)
  show ?thesis
    using assms on_repoD [OF 1] on_repoD [OF 2] unfolding create_images_def Let_def 1 prod.case
    by (cases x; cases y) (auto simp: 2 split: sum.splits)
qed

lemma create_disks_frames:
  assumes "create_disks svc v img tmp d = (d', r)"
  shows "Daemon_Store d' = Daemon_Store d \<and> Daemon_vm d' = Daemon_vm d"
  using assms by (auto simp: create_disks_def split: prod.splits option.splits dest!: on_repoD)

lemma eff_create_fail:
  assumes "covered d" "\<not> live (Daemon_vm d) (Sandbox_ID v)"
  shows "eff b (Sandbox_ID v) d (fst (create_fail svc v d err))"
proof -
  let ?r = "\<lambda>p d. fst (on_repo (\<lambda>r. Repo_Remove (Svc_Repo svc) r p) d)"
  let ?d2 = "?r (path_Join [dir d (Sandbox_ID v), ''state.ext4'']) (?r (path_Join [dir d (Sandbox_ID v), ''app.ext4'']) d)"
  have E2: "eff b (Sandbox_ID v) d ?d2" by (rule eff_same [OF assms(1)]) simp_all
  obtain d3 e where 3: "d_Update svc ?d2 (Sandbox_ID v) (Transition ''failed'' (error_text err)) = (d3, e)" by (rule prod.exhaust)
  have "eff b (Sandbox_ID v) ?d2 d3"
    using assms(2) Transition_core by (intro eff_Update [OF eff_covered [OF E2] 3]) simp
  with E2 have "eff b (Sandbox_ID v) d d3" by (rule eff_trans)
  then show ?thesis by (simp add: create_fail_def Let_def 3)
qed

lemma eff_Create_prepare:
  assumes "covered d" "\<not> live (Daemon_vm d) (Sandbox_ID v)" "\<And>u. rec d (Sandbox_ID v) = Some u \<Longrightarrow> same_core u v"
    and "Create_prepare svc d v = (d', r)"
  shows "eff b (Sandbox_ID v) d d'"
proof -
  let ?s = "Sandbox_ID v"
  have fl: "eff b ?s d d'" if "eff b ?s d dx" "Daemon_vm dx = Daemon_vm d" "create_fail svc v dx e = (d', r)" for dx e
  proof -
    have "eff b ?s dx (fst (create_fail svc v dx e))"
      by (rule eff_create_fail [OF eff_covered [OF that(1)]]) (use assms(2) that(2) in simp)
    from eff_trans [OF that(1) this] that(3) show ?thesis by simp
  qed
  obtain d1 e1 where 1: "on_repo (\<lambda>r. Repo_MkdirAll (Svc_Repo svc) r (dir d ?s)) d = (d1, e1)" by (rule prod.exhaust)
  note f1 = on_repoD [OF 1]
  have E1: "eff b ?s d d1" using f1 by (intro eff_same [OF assms(1)]) simp_all
  let ?d1 = "d_Intent svc d1 ?s ''prepare-images''"
  obtain d2 x2 where 2: "create_images svc v ?d1 = (d2, x2)" by (rule prod.exhaust)
  note f2 = create_images_frames [OF 2]
  have "eff b ?s d ?d1" using E1 eff_Intent [OF eff_covered [OF E1]] by (rule eff_trans)
  then have E2: "eff b ?s d d2" using f2 eff_same [OF eff_covered] eff_trans by blast
  let ?d2 = "d_Intent svc d2 ?s ''prepare-disks''"
  have E2': "eff b ?s d ?d2" using E2 eff_Intent [OF eff_covered [OF E2]] by (rule eff_trans)
  obtain d3 x3 where 3: "on_repo (\<lambda>r. Repo_MkdirTemp (Svc_Repo svc) r (dir d ?s)) ?d2 = (d3, x3)" by (rule prod.exhaust)
  note f3 = on_repoD [OF 3]
  have E3: "eff b ?s d d3" using E2' f3 eff_same [OF eff_covered [OF E2'], of d3] eff_trans by blast
  have v3: "Daemon_vm d3 = Daemon_vm d" using f1 f2 f3 by simp
  note body = assms(4) [unfolded Create_prepare_def Let_def 1 prod.case]
  show ?thesis
  proof (cases e1)
    case (Some e)
    with body f1 fl [OF E1] show ?thesis by simp
  next
    case n1: None
    show ?thesis
    proof (cases x2)
      case (Inl e)
      with body n1 2 f1 f2 fl [OF E2] show ?thesis by simp
    next
      case (Inr p)
      obtain img u where p: "p = (img, u)" by (rule prod.exhaust)
      have su: "same_core v u" using create_core 2 Inr p by blast
      show ?thesis
      proof (cases x3)
        case (Inl e)
        with body n1 2 3 \<open>x2 = Inr p\<close> p v3 fl [OF E3] show ?thesis by simp
      next
        case x3: (Inr tmp)
        obtain d4 e4 where 4: "create_disks svc v img tmp d3 = (d4, e4)" by (rule prod.exhaust)
        note f4 = create_disks_frames [OF 4]
        have E4: "eff b ?s d d4" using f4 eff_same [OF eff_covered [OF E3], of d4] E3 eff_trans by blast
        obtain d5 e5 where 5: "d_Update svc d4 ?s (\<lambda>_. Inr (u\<lparr>Sandbox_State := ''created''\<rparr>)) = (d5, e5)" by (rule prod.exhaust)
        have r4: "rec d4 = rec d"
          using f1 f2 f3 f4 by (simp add: rec_def fun_eq_iff)
        have "eff b ?s d4 d5"
        proof (rule eff_Update [OF eff_covered [OF E4] 5])
          fix x y assume "rec d4 ?s = Some x" "Inr (u\<lparr>Sandbox_State := ''created''\<rparr>) = Inr y"
          then show "same_core x y \<and> (live (Daemon_vm d4) ?s \<longrightarrow> reservesVMResources y)"
            using assms(2,3) su r4 f4 v3 by (auto simp: same_core_def)
        qed
        with E4 have E5: "eff b ?s d d5" by (rule eff_trans)
        have v5: "Daemon_vm d5 = Daemon_vm d" using 5 Update_vm [of svc d4 ?s] f4 v3 by (metis fst_conv)
        obtain d6 r6 where 6: "(case e4 of Some e \<Rightarrow> create_fail svc v d4 e | None \<Rightarrow>
            (case e5 of Some e \<Rightarrow> create_fail svc v d5 e | None \<Rightarrow> (d5, Inr (u\<lparr>Sandbox_State := ''created''\<rparr>)))) = (d6, r6)" by (rule prod.exhaust)
        have c4: "eff b ?s d (fst (create_fail svc v d4 e))" for e
          using assms(2) f4 v3 by (intro eff_trans [OF E4 eff_create_fail [OF eff_covered [OF E4]]]) simp
        have c5: "eff b ?s d (fst (create_fail svc v d5 e))" for e
          using assms(2) v5 by (intro eff_trans [OF E5 eff_create_fail [OF eff_covered [OF E5]]]) simp
        have "eff b ?s d (fst (d6, r6))"
          unfolding 6 [symmetric] using c4 c5 E5 by (simp split: option.split)
        then have E6: "eff b ?s d d6" by simp
        have d': "d' = fst (on_repo (\<lambda>r. Repo_RemoveAll (Svc_Repo svc) r tmp) d6)"
          using body n1 2 3 4 5 6 Inr p x3 by (cases e4; cases e5) (auto simp: case_prod_unfold)
        have "eff b ?s d6 d'" unfolding d' by (rule eff_same [OF eff_covered [OF E6]]) simp_all
        with E6 show ?thesis by (rule eff_trans)
      qed
    qed
  qed
qed

text \<open>Admission: the record becomes \<open>starting\<close>, its machine is not live, and no sandbox that holds
  resources uses one of its volumes.\<close>

lemma eff_Start_admit:
  assumes "covered d" "Start_admit svc d ref = (d', Inr (v, b))"
  shows "eff False (Sandbox_ID v) d d'" "\<not> live (Daemon_vm d') (Sandbox_ID v)" "Daemon_vm d' = Daemon_vm d"
    "\<exists>u. rec d' (Sandbox_ID v) = Some u \<and> reservesVMResources u \<and> Sandbox_Spec u = Sandbox_Spec v"
    "\<And>j u. j \<noteq> Sandbox_ID v \<Longrightarrow> rec d j = Some u \<Longrightarrow> reservesVMResources u \<Longrightarrow>
       set (mount_names (Sandbox_Spec v)) \<inter> set (mount_names (Sandbox_Spec u)) = {}"
proof -
  let ?d2 = "called (called d)" and ?d3 = "called (called (called d))"
  have st: "store_inv (Daemon_Store d)" using assms(1) by (simp add: covered_def)
  from assms(2) obtain w all where w: "Get (d_db svc (called d)) (Daemon_Store d) (Sandbox_ID w) = Inr w \<or> True"
    and g: "\<exists>i. Get (d_db svc (called d)) (Daemon_Store d) i = Inr w"
    and state: "Sandbox_State w = ''created'' \<or> Sandbox_State w = ''exited''"
    and l: "List_sandboxes (d_db svc ?d2) (Daemon_Store d) = Inr all" and vc: "volume_conflict w all = None"
    and u: "d_Update svc ?d3 (Sandbox_ID w) (\<lambda>_. Inr (starting w)) = (d', None)" and v: "v = starting w"
    by (auto simp: Start_admit_def d_Get_def d_List_def split: sum.splits option.splits prod.splits if_splits)
  from g Get_member [OF st] have rw: "rec d (Sandbox_ID w) = Some w" by (auto simp: rec_def)
  have vw: "Sandbox_ID v = Sandbox_ID w" "Sandbox_Spec v = Sandbox_Spec w" "same_core w v" "reservesVMResources v"
    unfolding v by (simp_all add: starting_def same_core_def reservesVMResources_def)
  have "\<not> reservesVMResources w" using state by (auto simp: reservesVMResources_def)
  then have nl: "\<not> live (Daemon_vm d) (Sandbox_ID w)" using assms(1) rw by (auto simp: covered_def)
  have c3: "covered ?d3" "rec ?d3 = rec d" "Daemon_vm ?d3 = Daemon_vm d" using assms(1) by (simp_all add: covered_def rec_def fun_eq_iff)
  have "eff False (Sandbox_ID v) d ?d3" by (rule eff_same [OF assms(1)]) simp_all
  moreover have "eff False (Sandbox_ID w) ?d3 d'"
    using rw c3 vw(3) by (intro eff_Update [OF c3(1) u]) (auto simp: v [symmetric] vw)
  ultimately show "eff False (Sandbox_ID v) d d'" using eff_trans vw(1) by metis
  have st3: "store_inv (Daemon_Store ?d3)" using st by simp
  show vm': "Daemon_vm d' = Daemon_vm d" using Update_vm [of svc ?d3 "Sandbox_ID w" "\<lambda>_. Inr (starting w)"] u by simp
  with nl vw(1) show "\<not> live (Daemon_vm d') (Sandbox_ID v)" by simp
  from st3 u show "\<exists>u. rec d' (Sandbox_ID v) = Some u \<and> reservesVMResources u \<and> Sandbox_Spec u = Sandbox_Spec v"
    by (cases rule: d_Update_cases) (use vw v in auto)
  fix j x assume j: "j \<noteq> Sandbox_ID v" "rec d j = Some x" "reservesVMResources x"
  have "x \<in> set all" using List_sandboxes_set [OF st l] j(2) by (auto simp: rec_def ran_def)
  moreover have "Sandbox_ID x = j" using sandbox_of_SomeD(1) [OF st] j(2) by (simp add: rec_def)
  ultimately show "set (mount_names (Sandbox_Spec v)) \<inter> set (mount_names (Sandbox_Spec x)) = {}"
    using vc j vw unfolding volume_conflict_None by auto
qed

lemma eff_Start_refused:
  assumes "covered d" "Start_admit svc d ref = (d', Inl e)"
  shows "Daemon_Store d' = Daemon_Store d" "Daemon_vm d' = Daemon_vm d"
proof -
  have st: "store_inv (Daemon_Store d)" using assms(1) by (simp add: covered_def)
  have up: "Daemon_Store d2 = Daemon_Store d1 \<and> Daemon_vm d2 = Daemon_vm d1" if "d_Update svc d1 i fn = (d2, Some x)" for d1 d2 i fn x
    using that Update_err by (auto simp: d_Update_def split: prod.splits)
  from assms(2) show "Daemon_Store d' = Daemon_Store d" "Daemon_vm d' = Daemon_vm d"
    by (auto simp: Start_admit_def d_Get_def d_List_def split: sum.splits option.splits prod.splits if_splits dest!: up)
qed

text \<open>Recovery touches every sandbox, and starts no machine.\<close>

definition shrinks :: "('h, 'n, 'r) Daemon \<Rightarrow> ('h, 'n, 'r) Daemon \<Rightarrow> bool" where
  "shrinks d d' \<longleftrightarrow> covered d' \<and> core_le (Daemon_Store d) (Daemon_Store d') \<and> (\<forall>i. live (Daemon_vm d') i \<longrightarrow> live (Daemon_vm d) i)"

lemma eff_shrinks: "eff False s d d' \<Longrightarrow> shrinks d d'"
  by (simp add: eff_def shrinks_def)

lemma shrinks_trans: "shrinks d d1 \<Longrightarrow> shrinks d1 d2 \<Longrightarrow> shrinks d d2"
  unfolding shrinks_def using core_le_trans by blast

lemma recover_all_shrinks:
  "Svc_VM svc = vm \<Longrightarrow> covered d \<Longrightarrow> recover_all svc d vs = (d', e) \<Longrightarrow> \<forall>v \<in> set vs. good (Sandbox_ID v) \<Longrightarrow> shrinks d d'"
proof (induction vs arbitrary: d)
  case Nil
  then show ?case using eff_shrinks [OF eff_refl] by simp
next
  case (Cons v vs)
  obtain d1 x where 1: "recover_one svc d v = (d1, x)" by (rule prod.exhaust)
  have g: "good (Sandbox_ID v)" "\<forall>v \<in> set vs. good (Sandbox_ID v)" using Cons.prems(4) by simp_all
  note E = eff_recover_one [OF Cons.prems(1,2) 1 g(1), of False]
  show ?case
  proof (cases x)
    case None
    with Cons.prems 1 have "recover_all svc d1 vs = (d', e)" by simp
    from Cons.IH [OF Cons.prems(1) eff_covered [OF E] this g(2)] eff_shrinks [OF E] show ?thesis using shrinks_trans by blast
  next
    case (Some y)
    with Cons.prems 1 eff_shrinks [OF E] show ?thesis by simp
  qed
qed

lemma Recover_shrinks:
  assumes "Svc_VM svc = vm" "covered d" "Recover svc d = (d', e)"
    and good: "\<And>i u. rec d i = Some u \<Longrightarrow> good i"
  shows "shrinks d d'"
proof -
  have c: "shrinks d (called d)" by (rule eff_shrinks [OF eff_same [OF assms(2)]]) simp_all
  show ?thesis
  proof (cases "List_sandboxes (d_db svc d) (Daemon_Store d)")
    case (Inl x)
    then show ?thesis using assms(3) c by (simp add: Recover_def d_List_def)
  next
    case (Inr all)
    then have "recover_all svc (called d) all = (d', e)" using assms(3) by (simp add: Recover_def d_List_def)
    moreover have "covered (called d)" using c by (simp add: shrinks_def)
    moreover have "\<forall>v \<in> set all. good (Sandbox_ID v)"
    proof
      fix v assume "v \<in> set all"
      have st: "store_inv (Daemon_Store d)" using assms(2) by (simp add: covered_def)
      from \<open>v \<in> set all\<close> List_sandboxes_set [OF st Inr] obtain i where i: "sandbox_of (Daemon_Store d) i = Some v" by (auto simp: ran_def)
      then have "Sandbox_ID v = i" by (rule sandbox_of_SomeD(1) [OF st])
      with i good show "good (Sandbox_ID v)" by (simp add: rec_def)
    qed
    ultimately show ?thesis using recover_all_shrinks [OF assms(1)] c shrinks_trans by blast
  qed
qed

end

section \<open>Volumes of a specification\<close>

lemma check_volumes_frames:
  "check_volumes svc d ms = (d', e) \<Longrightarrow> Daemon_Store d' = Daemon_Store d \<and> Daemon_vm d' = Daemon_vm d"
proof (induction ms arbitrary: d)
  case (Cons m ms)
  show ?case using Cons.prems Cons.IH [of "called d"] by (cases "Volume_get (d_db svc d) (Daemon_Store d) m") auto
qed simp

lemma check_volumes_exist:
  "check_volumes svc d ms = (d', None) \<Longrightarrow> m \<in> set ms \<Longrightarrow> volume_of (Daemon_Store d) m \<noteq> None"
proof (induction ms arbitrary: d)
  case (Cons x ms)
  obtain y where y: "Volume_get (d_db svc d) (Daemon_Store d) x = Inr y" "check_volumes svc (called d) ms = (d', None)"
    using Cons.prems(1) by (auto split: sum.splits)
  show ?case using Cons.IH [OF y(2)] Cons.prems(2) Volume_get_of [OF y(1)] by auto
qed simp

end
