(* ===== verification/Results.thy ===== *)
theory Results
  imports StateStore Journal
begin

text \<open>
  Retained results, src/internal/daemon/results.go: the exit status and the logs of a sandbox
  that was removed automatically stay in the directory \<open>results\<close> for a day.  The directory is the
  list of its entries as \<open>os.ReadDir\<close> returns them, by name; \<open>None\<close> is a directory that cannot be
  read.  An entry has what \<open>Info\<close> reports and what decoding it as JSON gives.  Pruning takes the
  order in which \<open>sort.Slice\<close> leaves entries of equal age as a parameter (\<open>ord\<close>), and which removals
  succeed (\<open>rm\<close>).

  The lemmas show that pruning keeps the directory within its limits and drops the shortest run
  of oldest results that does so, that a result just saved is found, and that attaching to a
  finished sandbox replays its log and then reports the exit.
\<close>

section \<open>The directory\<close>

record saved_result =
  result_Exit :: Exit
  result_ID :: string
  result_Name :: string

record entry =
  entry_info :: bool
  entry_regular :: bool
  entry_mtime :: int
  entry_size :: int
  entry_json :: "saved_result option"

type_synonym results = "(string \<times> entry) list"

definition resultRetention :: int where "resultRetention = 24 * 3600 * 1000000000"

definition put_entry :: "string \<Rightarrow> entry \<Rightarrow> results \<Rightarrow> results" where
  "put_entry n e rs = insort_key fst (n, e) (filter (\<lambda>p. fst p \<noteq> n) rs)"

section \<open>Pruning\<close>

record saved =
  saved_id :: string
  saved_at :: int
  saved_size :: int

definition stat_size :: "results \<Rightarrow> string \<Rightarrow> int" where
  "stat_size rs n = (case map_of rs n of Some e \<Rightarrow> if entry_info e then entry_size e else 0 | None \<Rightarrow> 0)"

fun all_saved :: "results \<Rightarrow> results \<Rightarrow> saved list" where
  "all_saved rs [] = []"
| "all_saved rs ((n, e) # es) =
     (if \<not> HasSuffix n ''.json'' \<or> \<not> entry_info e then all_saved rs es
      else
        (let sid = TrimSuffix n ''.json'' in
         \<lparr>saved_id = sid, saved_at = entry_mtime e,
          saved_size = wrap64 (wrap64 (entry_size e + stat_size rs (sid @ ''.log'')) + stat_size rs (sid @ ''.log.1''))\<rparr>
           # all_saved rs es))"

definition saved_total :: "saved list \<Rightarrow> int" where
  "saved_total vs = foldl (\<lambda>n v. wrap64 (n + saved_size v)) 0 vs"

fun prune_loop :: "int \<Rightarrow> int \<Rightarrow> saved list \<Rightarrow> saved list" where
  "prune_loop now held [] = []"
| "prune_loop now held (v # vs) =
     (if now - saved_at v < resultRetention \<and> held \<le> 268435456 \<and> length (v # vs) \<le> 128 then []
      else v # prune_loop now (wrap64 (held - saved_size v)) vs)"

definition files_of :: "string \<Rightarrow> string list" where
  "files_of sid = [sid @ ''.json'', sid @ ''.log'', sid @ ''.log.1'']"

definition remove_saved :: "(string \<Rightarrow> bool) \<Rightarrow> saved list \<Rightarrow> results \<Rightarrow> results" where
  "remove_saved rm vs rs =
     filter (\<lambda>p. \<not> (rm (fst p) \<and> list_ex (\<lambda>v. fst p \<in> set (files_of (saved_id v))) vs)) rs"

definition pruneResultsLocked :: "(saved list \<Rightarrow> saved list) \<Rightarrow> (string \<Rightarrow> bool) \<Rightarrow> int \<Rightarrow> results option \<Rightarrow> results option" where
  "pruneResultsLocked ord rm now dir =
     (case dir of None \<Rightarrow> None
      | Some rs \<Rightarrow>
          (let all = all_saved rs rs in Some (remove_saved rm (prune_loop now (saved_total all) (ord all)) rs)))"

section \<open>Saving and finding\<close>

text \<open>\<open>save_link\<close> is the log that \<open>os.Link\<close> finds, \<open>save_json\<close> the outcome of writing the record;
  \<open>save_landed\<close> says whether a failing write had already replaced the file.\<close>

record save_env =
  save_mkdir :: "error option"
  save_link :: "string \<Rightarrow> entry result"
  save_json :: "error option"
  save_landed :: bool
  save_size :: int

fun link_logs :: "save_env \<Rightarrow> string \<Rightarrow> string list \<Rightarrow> results \<Rightarrow> results \<times> error option" where
  "link_logs env sid [] rs = (rs, None)"
| "link_logs env sid (sfx # sfxs) rs =
     (case save_link env sfx of
        Inl e \<Rightarrow> if e = ErrNotExist then link_logs env sid sfxs rs else (rs, Some e)
      | Inr f \<Rightarrow>
          if map_of rs (sid @ ''.log'' @ sfx) \<noteq> None then link_logs env sid sfxs rs
          else link_logs env sid sfxs (put_entry (sid @ ''.log'' @ sfx) f rs))"

definition result_entry :: "save_env \<Rightarrow> int \<Rightarrow> Sandbox \<Rightarrow> Exit \<Rightarrow> entry" where
  "result_entry env now v exit =
     \<lparr>entry_info = True, entry_regular = True, entry_mtime = now, entry_size = save_size env,
      entry_json = Some \<lparr>result_Exit = exit, result_ID = Sandbox_ID v, result_Name = Sandbox_Name v\<rparr>\<rparr>"

definition saveResult :: "(saved list \<Rightarrow> saved list) \<Rightarrow> (string \<Rightarrow> bool) \<Rightarrow> save_env \<Rightarrow> int \<Rightarrow> results option \<Rightarrow> Sandbox \<Rightarrow> Exit \<Rightarrow> results option \<times> error option" where
  "saveResult ord rm env now dir v exit =
     (case save_mkdir env of Some e \<Rightarrow> (dir, Some e) | None \<Rightarrow>
      (case link_logs env (Sandbox_ID v) [[], ''.1''] (case dir of None \<Rightarrow> [] | Some rs \<Rightarrow> rs) of
         (rs, Some e) \<Rightarrow> (Some rs, Some e)
       | (rs, None) \<Rightarrow>
         (let rs1 = put_entry (Sandbox_ID v @ ''.json'') (result_entry env now v exit) rs in
          case save_json env of
            Some e \<Rightarrow> (Some (if save_landed env then rs1 else rs), Some e)
          | None \<Rightarrow> (pruneResultsLocked ord rm now (Some rs1), None))))"

definition result_at :: "int \<Rightarrow> string \<times> entry \<Rightarrow> saved_result option" where
  "result_at now p =
     (if \<not> HasSuffix (fst p) ''.json'' \<or> \<not> entry_info (snd p) \<or> \<not> entry_regular (snd p) \<or> now - entry_mtime (snd p) \<ge> resultRetention
      then None else entry_json (snd p))"

fun find_loop :: "int \<Rightarrow> string \<Rightarrow> saved_result option \<Rightarrow> nat \<Rightarrow> results \<Rightarrow> saved_result result" where
  "find_loop now ref found matches [] =
     (if matches = 1 then (case found of Some r \<Rightarrow> Inr r | None \<Rightarrow> Inl ErrNotFound)
      else if matches > 1 then Inl (Errorf ''ambiguous removed container ID'') else Inl ErrNotFound)"
| "find_loop now ref found matches (p # ps) =
     (case result_at now p of None \<Rightarrow> find_loop now ref found matches ps
      | Some v \<Rightarrow>
          if result_ID v = ref \<or> result_Name v = ref then Inr v
          else if HasPrefix (result_ID v) ref then find_loop now ref (Some v) (Suc matches) ps
          else find_loop now ref found matches ps)"

definition findResult :: "(saved list \<Rightarrow> saved list) \<Rightarrow> (string \<Rightarrow> bool) \<Rightarrow> int \<Rightarrow> results option \<Rightarrow> string \<Rightarrow> results option \<times> saved_result result" where
  "findResult ord rm now dir ref =
     (if \<not> ValidName ref then (dir, Inl ErrNotFound)
      else
        (let dir1 = pruneResultsLocked ord rm now dir in
         (dir1, case dir1 of None \<Rightarrow> Inl ErrNotFound | Some rs \<Rightarrow> find_loop now ref None 0 rs)))"

section \<open>Attaching to a finished sandbox\<close>

text \<open>The k-th frame that a stream sends has the outcome \<open>send k\<close>.\<close>

fun send_all :: "(nat \<Rightarrow> error option) \<Rightarrow> Frame list \<Rightarrow> Frame list \<Rightarrow> Frame list \<times> error option" where
  "send_all send out [] = (out, None)"
| "send_all send out (f # fs) =
     (case send (length out) of Some e \<Rightarrow> (out, Some e) | None \<Rightarrow> send_all send (out @ [f]) fs)"

partial_function (option) replay :: "(nat \<Rightarrow> error option) \<Rightarrow> Journal \<Rightarrow> nat \<Rightarrow> Frame list \<Rightarrow> (Frame list \<times> error option) option" where
  "replay send j seq out =
     (let fs = Read seq j; r = send_all send out fs
      in if fs = [] then Some (out, None)
         else if snd r \<noteq> None then Some r
         else replay send j (Frame_Sequence (last fs)) (fst r))"

definition exit_frame :: "Exit \<Rightarrow> Frame" where
  "exit_frame x = \<lparr>Frame_Type = ''exit'', Frame_Data = [], Frame_Message = Exit_Reason x, Frame_Code = Exit_Code x,
     Frame_Width = 0, Frame_Height = 0, Frame_Sequence = 0, Frame_Time = 0\<rparr>"

text \<open>What is attached to: the exit status and the path of the log.\<close>

definition retained :: "string \<Rightarrow> Sandbox result \<Rightarrow> saved_result result \<Rightarrow> (Exit \<times> string) result" where
  "retained root got found =
     (case got of
        Inr v \<Rightarrow>
          (case Sandbox_Exit v of
             None \<Rightarrow> Inl (Errorf ''container has no retained exit status'')
           | Some x \<Rightarrow> Inr (x, path_Join [path_Join [root, ''sandboxes'', Sandbox_ID v], ''application.log'']))
      | Inl _ \<Rightarrow>
          (case found of Inl e \<Rightarrow> Inl e
           | Inr r \<Rightarrow> Inr (result_Exit r, path_Join [root, ''results'', result_ID r @ ''.log''])))"

definition retainedAttach :: "string \<Rightarrow> (string \<Rightarrow> Journal) \<Rightarrow> (nat \<Rightarrow> error option) \<Rightarrow> Sandbox result \<Rightarrow> saved_result result \<Rightarrow> (Frame list \<times> error option) option" where
  "retainedAttach root open_log send got found =
     (case retained root got found of
        Inl e \<Rightarrow> Some ([], Some e)
      | Inr (x, path) \<Rightarrow>
          Option.bind (replay send (open_log path) 0 []) (\<lambda>(out, e).
            if e \<noteq> None then Some (out, e)
            else if Exit_Code x = None then Some (out, Some (Errorf (Exit_Reason x)))
            else Some (send_all send out [exit_frame x])))"

section \<open>Pruning keeps the limits\<close>

definition keep_ok :: "int \<Rightarrow> saved list \<Rightarrow> bool" where
  "keep_ok now vs \<longleftrightarrow> (\<forall>v \<in> set vs. now - saved_at v < resultRetention) \<and> sum_list (map saved_size vs) \<le> 268435456 \<and> length vs \<le> 128"

definition by_age :: "(saved list \<Rightarrow> saved list) \<Rightarrow> bool" where
  "by_age ord \<longleftrightarrow> (\<forall>vs. mset (ord vs) = mset vs \<and> sorted (map saved_at (ord vs)))"

text \<open>Bounds under which no sum of sizes wraps around.\<close>

definition small_dir :: "results \<Rightarrow> bool" where
  "small_dir rs \<longleftrightarrow> distinct (map fst rs) \<and> length rs < 2 ^ 20 \<and> (\<forall>p \<in> set rs. 0 \<le> entry_size (snd p) \<and> entry_size (snd p) < 2 ^ 40)"

definition is_saved :: "string \<times> entry \<Rightarrow> bool" where
  "is_saved p \<longleftrightarrow> HasSuffix (fst p) ''.json'' \<and> entry_info (snd p)"

definition saved_entry :: "results \<Rightarrow> string \<times> entry \<Rightarrow> saved" where
  "saved_entry rs p = (let sid = TrimSuffix (fst p) ''.json'' in
     \<lparr>saved_id = sid, saved_at = entry_mtime (snd p),
      saved_size = wrap64 (wrap64 (entry_size (snd p) + stat_size rs (sid @ ''.log'')) + stat_size rs (sid @ ''.log.1''))\<rparr>)"

lemma all_saved_map: "all_saved rs es = map (saved_entry rs) (filter is_saved es)"
  by (induction es) (auto simp: is_saved_def saved_entry_def Let_def)

lemma prune_loop_spec:
  assumes "sorted (map saved_at vs)" "\<forall>v \<in> set vs. 0 \<le> saved_size v" "sum_list (map saved_size vs) < 2 ^ 63"
  shows "\<exists>k. prune_loop now (sum_list (map saved_size vs)) vs = take k vs \<and> k \<le> length vs \<and>
    keep_ok now (drop k vs) \<and> (\<forall>j<k. \<not> keep_ok now (drop j vs))"
  using assms
proof (induction vs)
  case Nil
  then show ?case by (simp add: keep_ok_def)
next
  case (Cons v vs)
  let ?n = "sum_list (map saved_size (v # vs))"
  have age: "saved_at v \<le> saved_at u" if "u \<in> set vs" for u using Cons.prems(1) that by simp
  have nn: "0 \<le> sum_list (map saved_size vs)" using Cons.prems(2) by (intro sum_list_nonneg) auto
  have now: "keep_ok now (v # vs) \<longleftrightarrow> now - saved_at v < resultRetention \<and> ?n \<le> 268435456 \<and> length (v # vs) \<le> 128"
    unfolding keep_ok_def using age by fastforce
  show ?case
  proof (cases "keep_ok now (v # vs)")
    case True
    with now show ?thesis by (intro exI [of _ 0]) simp
  next
    case False
    have "0 \<le> saved_size v" using Cons.prems(2) by simp
    then have w: "wrap64 (?n - saved_size v) = sum_list (map saved_size vs)"
      using nn Cons.prems(3) by (simp add: in_int64_def max_int64_def)
    obtain k where k: "prune_loop now (sum_list (map saved_size vs)) vs = take k vs" "k \<le> length vs"
        "keep_ok now (drop k vs)" "\<And>j. j < k \<Longrightarrow> \<not> keep_ok now (drop j vs)"
      using Cons.IH Cons.prems \<open>0 \<le> saved_size v\<close> by auto
    have "\<not> keep_ok now (drop j (v # vs))" if "j < Suc k" for j
      using that False k(4) by (cases j) auto
    moreover have "prune_loop now ?n (v # vs) = take (Suc k) (v # vs)"
      using False now w k(1) by simp
    ultimately show ?thesis using k(2,3) by (intro exI [of _ "Suc k"]) simp
  qed
qed

lemma stat_size_bounds:
  assumes "small_dir rs"
  shows "0 \<le> stat_size rs n" "stat_size rs n < 2 ^ 40"
  using assms by (auto simp: small_dir_def stat_size_def split: option.splits dest!: map_of_SomeD)

lemma saved_entry_size:
  assumes "small_dir rs" "p \<in> set rs"
  shows "saved_size (saved_entry rs p) = entry_size (snd p) + stat_size rs (TrimSuffix (fst p) ''.json'' @ ''.log'')
    + stat_size rs (TrimSuffix (fst p) ''.json'' @ ''.log.1'')"
    and "0 \<le> saved_size (saved_entry rs p)" "saved_size (saved_entry rs p) < 2 ^ 42"
proof -
  have "0 \<le> entry_size (snd p)" "entry_size (snd p) < 2 ^ 40" using assms by (auto simp: small_dir_def)
  note b = this stat_size_bounds [OF assms(1), of "TrimSuffix (fst p) ''.json'' @ ''.log''"]
    stat_size_bounds [OF assms(1), of "TrimSuffix (fst p) ''.json'' @ ''.log.1''"]
  show *: "saved_size (saved_entry rs p) = entry_size (snd p) + stat_size rs (TrimSuffix (fst p) ''.json'' @ ''.log'')
    + stat_size rs (TrimSuffix (fst p) ''.json'' @ ''.log.1'')"
    using b by (simp add: saved_entry_def Let_def in_int64_def max_int64_def)
  show "0 \<le> saved_size (saved_entry rs p)" "saved_size (saved_entry rs p) < 2 ^ 42" unfolding * using b by simp_all
qed

lemma sum_list_below:
  assumes "\<And>x. x \<in> set xs \<Longrightarrow> f x \<le> (b :: int)"
  shows "sum_list (map f xs) \<le> int (length xs) * b"
  using assms by (induction xs) (fastforce simp: algebra_simps)+

lemma all_saved_bounds:
  assumes "small_dir rs"
  shows "\<forall>v \<in> set (all_saved rs rs). 0 \<le> saved_size v" "sum_list (map saved_size (all_saved rs rs)) < 2 ^ 63"
proof -
  show "\<forall>v \<in> set (all_saved rs rs). 0 \<le> saved_size v"
    using saved_entry_size(2) [OF assms] by (auto simp: all_saved_map)
  have "v \<in> set (all_saved rs rs) \<Longrightarrow> saved_size v \<le> 2 ^ 42" for v
    using saved_entry_size(3) [OF assms] by (auto simp: all_saved_map less_imp_le)
  then have "sum_list (map saved_size (all_saved rs rs)) \<le> int (length (all_saved rs rs)) * 2 ^ 42" by (rule sum_list_below)
  also have "\<dots> \<le> 2 ^ 20 * 2 ^ 42"
  proof -
    have "length (all_saved rs rs) \<le> length rs" by (simp add: all_saved_map)
    then have "int (length (all_saved rs rs)) \<le> 2 ^ 20" using assms by (simp add: small_dir_def)
    then show ?thesis by simp
  qed
  finally show "sum_list (map saved_size (all_saved rs rs)) < 2 ^ 63" by simp
qed

lemma saved_total_sum:
  assumes "\<forall>v \<in> set vs. 0 \<le> saved_size v" "sum_list (map saved_size vs) < 2 ^ 63"
  shows "saved_total vs = sum_list (map saved_size vs)"
proof -
  have "foldl (\<lambda>n v. wrap64 (n + saved_size v)) a vs = a + sum_list (map saved_size vs)"
    if "0 \<le> a" "a + sum_list (map saved_size vs) < 2 ^ 63" for a
    using assms(1) that
  proof (induction vs arbitrary: a)
    case (Cons v vs)
    have "0 \<le> sum_list (map saved_size vs)" using Cons.prems(1) by (intro sum_list_nonneg) auto
    then have "wrap64 (a + saved_size v) = a + saved_size v" using Cons.prems by (intro wrap64_id) (auto simp: in_int64_def max_int64_def)
    then show ?case using Cons by simp
  qed simp
  from this [of 0] show ?thesis using assms(2) by (simp add: saved_total_def)
qed

lemma keep_ok_mset:
  assumes "keep_ok now vs" "mset us = mset vs"
  shows "keep_ok now us"
proof -
  have "mset (map saved_size us) = mset (map saved_size vs)" using assms(2) by simp
  then have "sum_list (map saved_size us) = sum_list (map saved_size vs)" by (simp only: sum_mset_sum_list [symmetric])
  then show ?thesis using assms(1) mset_eq_setD [OF assms(2)] mset_eq_length [OF assms(2)] by (simp add: keep_ok_def)
qed

text \<open>What is left of the directory: the files of the results that were dropped are gone, and
  the others are as before.\<close>

lemma files_of_inject:
  "x @ ''.json'' \<in> set (files_of y) \<longleftrightarrow> x = y" "x @ ''.log'' \<in> set (files_of y) \<longleftrightarrow> x = y" "x @ ''.log.1'' \<in> set (files_of y) \<longleftrightarrow> x = y"
proof -
  have last: "last (a @ b) = last b" if "b \<noteq> []" for a b :: string using that by simp
  have ne: "x @ ''.json'' \<noteq> y @ ''.log''" "x @ ''.json'' \<noteq> y @ ''.log.1''" "x @ ''.log'' \<noteq> y @ ''.log.1''" for x y :: string
    using last [of "''.json''"] last [of "''.log''"] last [of "''.log.1''"] by (auto dest!: arg_cong [of _ _ last])
  show "x @ ''.json'' \<in> set (files_of y) \<longleftrightarrow> x = y" "x @ ''.log'' \<in> set (files_of y) \<longleftrightarrow> x = y" "x @ ''.log.1'' \<in> set (files_of y) \<longleftrightarrow> x = y"
    using ne(1,2,3) [of x y] ne(1,2,3) [of y x] by (auto simp: files_of_def)
qed

lemma HasSuffix_append [simp]: "HasSuffix (x @ s) s"
  by (simp add: HasSuffix_def suffix_def)

lemma TrimSuffix_inverse: "HasSuffix n s \<Longrightarrow> TrimSuffix n s @ s = n"
  by (auto simp: HasSuffix_def TrimSuffix_def suffix_def)

lemma map_of_filter_fst: "map_of (filter (\<lambda>p. P (fst p)) rs) n = (if P n then map_of rs n else None)"
  by (induction rs) auto

lemma remove_saved_left:
  assumes "rs' = remove_saved (\<lambda>_. True) vs rs"
  shows "all_saved rs' rs' = filter (\<lambda>v. saved_id v \<notin> saved_id ` set vs) (all_saved rs rs)"
proof -
  let ?K = "\<lambda>n. \<not> list_ex (\<lambda>v. n \<in> set (files_of (saved_id v))) vs"
  have rs': "rs' = filter (\<lambda>p. ?K (fst p)) rs" using assms by (simp add: remove_saved_def)
  have K: "?K (x @ ''.json'') \<longleftrightarrow> x \<notin> saved_id ` set vs" "?K (x @ ''.log'') \<longleftrightarrow> x \<notin> saved_id ` set vs"
      "?K (x @ ''.log.1'') \<longleftrightarrow> x \<notin> saved_id ` set vs" for x
    by (auto simp: list_ex_iff files_of_inject)
  have mo: "map_of rs' n = (if ?K n then map_of rs n else None)" for n
    using map_of_filter_fst [of ?K rs n] rs' by simp
  have st: "stat_size rs' (x @ s) = stat_size rs (x @ s)" if "x \<notin> saved_id ` set vs" "s = ''.log'' \<or> s = ''.log.1''" for x s
    using that K(2,3) [of x] unfolding stat_size_def mo by auto
  have k: "?K (fst p) \<longleftrightarrow> saved_id (saved_entry rs p) \<notin> saved_id ` set vs" if "is_saved p" for p
    using K(1) [of "TrimSuffix (fst p) ''.json''"] TrimSuffix_inverse that by (simp add: is_saved_def saved_entry_def Let_def)
  have e: "saved_entry rs' p = saved_entry rs p" if "saved_id (saved_entry rs p) \<notin> saved_id ` set vs" for p
    using that st by (simp add: saved_entry_def Let_def)
  have "filter is_saved rs' = filter (\<lambda>p. saved_id (saved_entry rs p) \<notin> saved_id ` set vs) (filter is_saved rs)"
    unfolding rs' filter_filter by (rule filter_cong) (use k in auto)
  then show ?thesis unfolding all_saved_map filter_map by (simp add: o_def e)
qed

lemma saved_ids_distinct:
  assumes "distinct (map fst rs)"
  shows "distinct (map saved_id (all_saved rs rs))"
proof -
  have "inj_on (\<lambda>p. TrimSuffix (fst p) ''.json'') (set (filter is_saved rs))"
  proof (rule inj_onI)
    fix p q assume *: "p \<in> set (filter is_saved rs)" "q \<in> set (filter is_saved rs)" "TrimSuffix (fst p) ''.json'' = TrimSuffix (fst q) ''.json''"
    then have pq: "p \<in> set rs" "q \<in> set rs" "is_saved p" "is_saved q" by auto
    then have "fst p = fst q" using *(3) TrimSuffix_inverse by (metis is_saved_def)
    then show "p = q" using pq assms by (metis eq_key_imp_eq_value prod.collapse)
  qed
  moreover have "distinct (filter is_saved rs)" using assms by (simp add: distinct_map)
  ultimately show ?thesis by (simp add: all_saved_map distinct_map o_def saved_entry_def Let_def)
qed

lemma prune_saved:
  assumes "small_dir rs" "by_age ord"
  obtains k rs' where "pruneResultsLocked ord (\<lambda>_. True) now (Some rs) = Some rs'"
    "rs' = remove_saved (\<lambda>_. True) (take k (ord (all_saved rs rs))) rs"
    "mset (all_saved rs' rs') = mset (drop k (ord (all_saved rs rs)))"
    "keep_ok now (drop k (ord (all_saved rs rs)))" "k \<le> length (all_saved rs rs)"
    "\<forall>j<k. \<not> keep_ok now (drop j (ord (all_saved rs rs)))"
proof -
  let ?a = "all_saved rs rs"
  have m: "mset (ord ?a) = mset ?a" and srt: "sorted (map saved_at (ord ?a))" using assms(2) by (auto simp: by_age_def)
  have s: "sum_list (map saved_size (ord ?a)) = sum_list (map saved_size ?a)"
    using m by (metis mset_map sum_mset_sum_list)
  note b = all_saved_bounds [OF assms(1)]
  have "\<forall>v \<in> set (ord ?a). 0 \<le> saved_size v" using b(1) m by (metis set_mset_mset)
  from prune_loop_spec [OF srt this, of now] b(2) s obtain k where
    k: "prune_loop now (saved_total ?a) (ord ?a) = take k (ord ?a)" "k \<le> length (ord ?a)" "keep_ok now (drop k (ord ?a))"
      "\<And>j. j < k \<Longrightarrow> \<not> keep_ok now (drop j (ord ?a))"
    using saved_total_sum [OF b] by auto
  have d: "distinct (map saved_id (ord ?a))"
    using saved_ids_distinct [of rs] assms(1) m by (metis small_dir_def distinct_map mset_eq_imp_distinct_iff set_mset_mset)
  have left: "filter (\<lambda>v. saved_id v \<notin> saved_id ` set (take k (ord ?a))) (ord ?a) = drop k (ord ?a)"
  proof -
    have "distinct (map saved_id (take k (ord ?a) @ drop k (ord ?a)))" using d by simp
    then have "saved_id ` set (take k (ord ?a)) \<inter> saved_id ` set (drop k (ord ?a)) = {}" by (simp only: map_append distinct_append set_map)
    then have "filter (\<lambda>v. saved_id v \<notin> saved_id ` set (take k (ord ?a))) (take k (ord ?a) @ drop k (ord ?a)) = drop k (ord ?a)"
      unfolding filter_append by (auto simp: filter_empty_conv filter_id_conv)
    then show ?thesis by simp
  qed
  define rs' where "rs' = remove_saved (\<lambda>_. True) (take k (ord ?a)) rs"
  have "mset (all_saved rs' rs') = mset (filter (\<lambda>v. saved_id v \<notin> saved_id ` set (take k (ord ?a))) (ord ?a))"
    unfolding remove_saved_left [OF rs'_def] using m by (metis mset_filter)
  then show thesis
    using that [OF _ rs'_def] k left mset_eq_length [OF m] by (simp add: pruneResultsLocked_def Let_def rs'_def)
qed


lemma by_age_sort: "by_age (sort_key saved_at)"
  by (simp add: by_age_def)

definition demo_entry :: "int \<Rightarrow> entry" where
  "demo_entry t = \<lparr>entry_info = True, entry_regular = True, entry_mtime = t, entry_size = 100, entry_json = None\<rparr>"


section \<open>A saved result is found\<close>

lemma find_loop_exact:
  assumes "p \<in> set ps" "result_at now p = Some r" "result_ID r = ref"
    and "\<And>q u. q \<in> set ps \<Longrightarrow> result_at now q = Some u \<Longrightarrow> result_ID u = ref \<or> result_Name u = ref \<Longrightarrow> u = r"
  shows "find_loop now ref found n ps = Inr r"
  using assms
proof (induction ps arbitrary: found n)
  case Nil
  from Nil.prems(1) show ?case by simp
next
  case (Cons q ps)
  have tl: "find_loop now ref f m ps = Inr r" if "p \<in> set ps" for f m
  proof (rule Cons.IH [OF that Cons.prems(2,3)])
    fix q' u assume "q' \<in> set ps" "result_at now q' = Some u" "result_ID u = ref \<or> result_Name u = ref"
    then show "u = r" by (intro Cons.prems(4) [of q']) simp_all
  qed
  show ?case
  proof (cases "result_at now q")
    case None
    then have "p \<in> set ps" using Cons.prems(1,2) by auto
    with None tl show ?thesis by simp
  next
    case (Some u)
    show ?thesis
    proof (cases "result_ID u = ref \<or> result_Name u = ref")
      case True
      with Some Cons.prems(4) [of q u] show ?thesis by simp
    next
      case False
      then have "p \<in> set ps" using Some Cons.prems(1-3) by auto
      with Some False tl show ?thesis by simp
    qed
  qed
qed

text \<open>The newest result survives pruning while it is young and small enough.\<close>

lemma newest_survives:
  assumes "small_dir rs" "by_age ord" "p \<in> set rs" "is_saved p" "now - entry_mtime (snd p) < resultRetention"
    and "saved_size (saved_entry rs p) \<le> 268435456"
    and "\<And>q. q \<in> set rs \<Longrightarrow> is_saved q \<Longrightarrow> q \<noteq> p \<Longrightarrow> entry_mtime (snd q) < entry_mtime (snd p)"
    and "pruneResultsLocked ord (\<lambda>_. True) now (Some rs) = Some rs'"
  shows "p \<in> set rs'"
proof -
  let ?o = "ord (all_saved rs rs)" and ?v = "saved_entry rs p"
  obtain k rs1 where
    p: "pruneResultsLocked ord (\<lambda>_. True) now (Some rs) = Some rs1" "rs1 = remove_saved (\<lambda>_. True) (take k ?o) rs"
      "mset (all_saved rs1 rs1) = mset (drop k ?o)" "keep_ok now (drop k ?o)"
      "k \<le> length (all_saved rs rs)" "\<forall>j<k. \<not> keep_ok now (drop j ?o)"
    by (rule prune_saved [OF assms(1,2), of now])
  have k: "rs' = remove_saved (\<lambda>_. True) (take k ?o) rs" using p(1,2) assms(8) by simp
  have o: "mset ?o = mset (all_saved rs rs)" "sorted (map saved_at ?o)" using assms(2) by (auto simp: by_age_def)
  have d: "distinct (map saved_id ?o)"
    using saved_ids_distinct [of rs] assms(1) o(1) by (metis small_dir_def distinct_map mset_eq_imp_distinct_iff set_mset_mset)
  have v: "?v \<in> set ?o" using assms(3,4) mset_eq_setD [OF o(1)] by (simp add: all_saved_map)
  have old: "saved_at u < saved_at ?v" if "u \<in> set ?o" "u \<noteq> ?v" for u
  proof -
    from that(1) obtain q where "q \<in> set rs" "is_saved q" "u = saved_entry rs q"
      using mset_eq_setD [OF o(1)] by (auto simp: all_saved_map)
    then show ?thesis using that(2) assms(7) [of q] by (cases "q = p") (auto simp: saved_entry_def Let_def)
  qed
  obtain i where i: "i < length ?o" "?o ! i = ?v" using v by (metis in_set_conv_nth)
  have i': "Suc i = length ?o"
  proof (rule ccontr)
    assume "Suc i \<noteq> length ?o"
    then have j: "Suc i < length ?o" using i(1) by simp
    then have "?o ! Suc i \<noteq> ?v" using d i by (metis distinct_map nth_eq_iff_index_eq n_not_Suc_n)
    then have "saved_at (?o ! Suc i) < saved_at (?o ! i)" using old i j by simp
    moreover have "saved_at (?o ! i) \<le> saved_at (?o ! Suc i)" using sorted_nth_mono [OF o(2), of i "Suc i"] j by simp
    ultimately show False by simp
  qed
  have "drop i ?o = [?v]" using i i' by (simp add: Cons_nth_drop_Suc [symmetric])
  then have "keep_ok now (drop i ?o)" using assms(5,6) by (simp add: keep_ok_def saved_entry_def Let_def)
  then have "k \<le> i" using p(6) by (meson not_less)
  have nk: "?v \<notin> set (take k ?o)"
  proof
    assume "?v \<in> set (take k ?o)"
    then obtain a where a: "a < k" "a < length ?o" "?o ! a = ?v" by (auto simp: in_set_conv_nth)
    then have "a = i" using i d nth_eq_iff_index_eq [of ?o a i] by (simp add: distinct_map)
    with a \<open>k \<le> i\<close> show False by simp
  qed
  have "saved_id ?v \<notin> saved_id ` set (take k ?o)"
  proof
    assume "saved_id ?v \<in> saved_id ` set (take k ?o)"
    then obtain u where u: "u \<in> set (take k ?o)" "saved_id ?v = saved_id u" by blast
    then have "u \<in> set ?o" by (meson in_set_takeD)
    then have "u = ?v" using u(2) v d by (simp add: distinct_map inj_on_def)
    with u(1) nk show False by simp
  qed
  moreover have "fst p = saved_id ?v @ ''.json''" using assms(4) TrimSuffix_inverse by (simp add: is_saved_def saved_entry_def Let_def)
  ultimately show ?thesis
    unfolding k remove_saved_def using assms(3) by (auto simp: list_ex_iff files_of_inject)
qed

lemma put_entry_set: "set (put_entry n e rs) = insert (n, e) {p \<in> set rs. fst p \<noteq> n}"
  by (auto simp: put_entry_def set_insort_key)

lemma put_entry_distinct:
  assumes "distinct (map fst rs)"
  shows "distinct (map fst (put_entry n e rs))" "length (put_entry n e rs) \<le> Suc (length rs)"
proof -
  let ?f = "filter (\<lambda>p. fst p \<noteq> n) rs"
  have m: "mset (put_entry n e rs) = add_mset (n, e) (mset ?f)" by (simp add: put_entry_def)
  then have "mset (map fst (put_entry n e rs)) = mset (n # map fst ?f)" by simp
  moreover have "distinct (n # map fst ?f)" using assms by (auto simp: distinct_map inj_on_def)
  ultimately show "distinct (map fst (put_entry n e rs))" by (metis mset_eq_imp_distinct_iff)
  have "length (put_entry n e rs) = Suc (length ?f)" by (simp add: put_entry_def)
  then show "length (put_entry n e rs) \<le> Suc (length rs)" by (simp add: le_trans [OF length_filter_le])
qed

lemma stat_size_le:
  assumes "\<And>p. p \<in> set rs \<Longrightarrow> fst p = n \<Longrightarrow> entry_size (snd p) \<le> b" "0 \<le> b"
  shows "stat_size rs n \<le> b"
  using assms by (auto simp: stat_size_def split: option.splits dest!: map_of_SomeD)

lemma link_logs_entries:
  assumes "link_logs env sid sfxs rs = (rs', None)" "distinct (map fst rs)"
  shows "distinct (map fst rs') \<and> length rs' \<le> length rs + length sfxs \<and>
    (\<forall>p \<in> set rs'. p \<in> set rs \<or> (\<exists>sfx \<in> set sfxs. fst p = sid @ ''.log'' @ sfx \<and> save_link env sfx = Inr (snd p)))"
  using assms
proof (induction sfxs arbitrary: rs)
  case (Cons sfx sfxs)
  show ?case
  proof (cases "save_link env sfx")
    case (Inl e)
    then have "link_logs env sid sfxs rs = (rs', None)" using Cons.prems(1) by (auto split: if_splits)
    from Cons.IH [OF this Cons.prems(2)] show ?thesis by auto
  next
    case (Inr f)
    show ?thesis
    proof (cases "map_of rs (sid @ ''.log'' @ sfx)")
      case None
      let ?rs = "put_entry (sid @ ''.log'' @ sfx) f rs"
      have "link_logs env sid sfxs ?rs = (rs', None)" using Cons.prems(1) Inr None by simp
      note ih = Cons.IH [OF this put_entry_distinct(1) [OF Cons.prems(2)]]
      then have "length rs' \<le> length rs + length (sfx # sfxs)"
        using put_entry_distinct(2) [OF Cons.prems(2), of "sid @ ''.log'' @ sfx" f] by simp
      moreover have "p \<in> set rs \<or> (\<exists>sfx \<in> set (sfx # sfxs). fst p = sid @ ''.log'' @ sfx \<and> save_link env sfx = Inr (snd p))"
        if "p \<in> set rs'" for p
        using ih that Inr unfolding put_entry_set by auto
      ultimately show ?thesis using ih by blast
    next
      case (Some e)
      then have "link_logs env sid sfxs rs = (rs', None)" using Cons.prems(1) Inr by simp
      from Cons.IH [OF this Cons.prems(2)] show ?thesis by auto
    qed
  qed
qed simp

text \<open>The directory in which the record has just been written, before and after pruning it.\<close>

definition holds_result :: "save_env \<Rightarrow> int \<Rightarrow> Sandbox \<Rightarrow> Exit \<Rightarrow> results \<Rightarrow> bool" where
  "holds_result env now v exit rs \<longleftrightarrow> small_dir rs \<and>
     (Sandbox_ID v @ ''.json'', result_entry env now v exit) \<in> set rs \<and> save_size env \<le> 2 ^ 26 \<and>
     (\<forall>p \<in> set rs. (fst p = Sandbox_ID v @ ''.log'' \<or> fst p = Sandbox_ID v @ ''.log.1'' \<longrightarrow> entry_size (snd p) \<le> 2 ^ 26) \<and>
       (is_saved p \<and> p \<noteq> (Sandbox_ID v @ ''.json'', result_entry env now v exit) \<longrightarrow> entry_mtime (snd p) < now \<and>
         (\<forall>r. entry_json (snd p) = Some r \<longrightarrow> result_ID r \<noteq> Sandbox_ID v \<and> result_Name r \<noteq> Sandbox_ID v)))"

lemma holds_result_prune:
  assumes "holds_result env now v exit rs" "by_age ord" "later - now < resultRetention"
    and "pruneResultsLocked ord (\<lambda>_. True) later (Some rs) = Some rs'"
  shows "holds_result env now v exit rs'"
proof -
  let ?p = "(Sandbox_ID v @ ''.json'', result_entry env now v exit)"
  have H: "small_dir rs" "?p \<in> set rs" "save_size env \<le> 2 ^ 26" using assms(1) by (auto simp: holds_result_def)
  have sid: "TrimSuffix (Sandbox_ID v @ ''.json'') ''.json'' = Sandbox_ID v"
    by (simp add: TrimSuffix_def)
  have b: "stat_size rs (Sandbox_ID v @ ''.log'') \<le> 2 ^ 26" "stat_size rs (Sandbox_ID v @ ''.log.1'') \<le> 2 ^ 26"
    using assms(1) by (auto intro!: stat_size_le simp: holds_result_def)
  have sz: "saved_size (saved_entry rs ?p) \<le> 268435456"
    using saved_entry_size(1) [OF H(1,2)] b H(3) by (simp add: sid result_entry_def)
  have isp: "is_saved ?p" by (simp add: is_saved_def result_entry_def)
  have old: "entry_mtime (snd q) < entry_mtime (snd ?p)" if "q \<in> set rs" "is_saved q" "q \<noteq> ?p" for q
    using assms(1) that by (simp add: holds_result_def result_entry_def)
  have keep: "?p \<in> set rs'"
    by (rule newest_survives [OF H(1) assms(2) H(2) isp _ sz old assms(4)]) (use assms(3) in \<open>simp_all add: result_entry_def\<close>)
  have sub: "set rs' \<subseteq> set rs" "distinct (map fst rs) \<Longrightarrow> distinct (map fst rs')" "length rs' \<le> length rs"
    using assms(4) by (auto simp: pruneResultsLocked_def Let_def remove_saved_def distinct_map_filter)
  have "small_dir rs'" using H(1) sub unfolding small_dir_def by auto
  with keep assms(1) sub(1) show ?thesis unfolding holds_result_def by blast
qed

lemma save_holds:
  assumes "link_logs env (Sandbox_ID v) [[], ''.1''] rs = (rs1, None)" "small_dir rs" "length rs + 3 < 2 ^ 20"
    and "0 \<le> save_size env" "save_size env \<le> 2 ^ 26"
    and "\<forall>sfx f. save_link env sfx = Inr f \<longrightarrow> 0 \<le> entry_size f \<and> entry_size f \<le> 2 ^ 26"
    and "\<forall>p \<in> set rs. fst p \<notin> set (files_of (Sandbox_ID v)) \<and> (is_saved p \<longrightarrow> entry_mtime (snd p) < now) \<and>
      (\<forall>r. entry_json (snd p) = Some r \<longrightarrow> result_ID r \<noteq> Sandbox_ID v \<and> result_Name r \<noteq> Sandbox_ID v)"
  shows "holds_result env now v exit (put_entry (Sandbox_ID v @ ''.json'') (result_entry env now v exit) rs1)"
proof -
  let ?p = "(Sandbox_ID v @ ''.json'', result_entry env now v exit)"
  let ?rs = "put_entry (Sandbox_ID v @ ''.json'') (result_entry env now v exit) rs1"
  have rs1: "distinct (map fst rs1)" "length rs1 \<le> length rs + 2"
      "\<And>p. p \<in> set rs1 \<Longrightarrow> p \<in> set rs \<or> (\<exists>sfx \<in> {[], ''.1''}. fst p = Sandbox_ID v @ ''.log'' @ sfx \<and> save_link env sfx = Inr (snd p))"
    using link_logs_entries [OF assms(1)] assms(2) by (auto simp: small_dir_def)
  have log: "\<not> is_saved p" if "fst p = Sandbox_ID v @ ''.log'' @ sfx" "sfx \<in> {[], ''.1''}" for p sfx
    using that by (auto simp: is_saved_def HasSuffix_def suffix_def dest!: arg_cong [of _ _ last])
  show ?thesis
    unfolding holds_result_def
  proof (intro conjI ballI)
    show "small_dir ?rs" unfolding small_dir_def
    proof (intro conjI ballI)
      show "length ?rs < 2 ^ 20" using put_entry_distinct(2) [OF rs1(1), of "fst ?p" "snd ?p", simplified] rs1(2) assms(3) by simp
      fix p assume "p \<in> set ?rs"
      then have "p = ?p \<or> p \<in> set rs1" by (auto simp: put_entry_set)
      then show "0 \<le> entry_size (snd p)" "entry_size (snd p) < 2 ^ 40"
        using rs1(3) [of p] assms(2,4-6) by (fastforce simp: small_dir_def result_entry_def)+
    qed (rule put_entry_distinct(1) [OF rs1(1)])
    show "?p \<in> set ?rs" by (simp add: put_entry_set)
    show "save_size env \<le> 2 ^ 26" by (rule assms(5))
    fix p assume p: "p \<in> set ?rs"
    then have p': "p = ?p \<or> p \<in> set rs1 \<and> fst p \<noteq> fst ?p" by (auto simp: put_entry_set)
    then show "fst p = Sandbox_ID v @ ''.log'' \<or> fst p = Sandbox_ID v @ ''.log.1'' \<longrightarrow> entry_size (snd p) \<le> 2 ^ 26"
      using rs1(3) [of p] assms(6,7) files_of_inject(1) by (auto simp: files_of_def)
    show "is_saved p \<and> p \<noteq> ?p \<longrightarrow> entry_mtime (snd p) < now \<and>
        (\<forall>r. entry_json (snd p) = Some r \<longrightarrow> result_ID r \<noteq> Sandbox_ID v \<and> result_Name r \<noteq> Sandbox_ID v)"
      using p' rs1(3) [of p] log [of p] assms(7) by blast
  qed
qed


definition demo_env :: save_env where
  "demo_env = \<lparr>save_mkdir = None, save_link = \<lambda>_. Inl ErrNotExist, save_json = None, save_landed = True, save_size = 90\<rparr>"

definition demo_exit :: Exit where
  "demo_exit = \<lparr>Exit_Code = Some 0, Exit_Reason = [], Exit_OOM = False, Exit_At = 0\<rparr>"


section \<open>Attaching replays the log\<close>

lemma send_all_ok: "(\<And>k. send k = None) \<Longrightarrow> send_all send out fs = (out @ fs, None)"
  by (induction fs arbitrary: out) auto

lemma replay_drain:
  assumes "\<And>k. send k = None" "drain seq j = Some fs"
  shows "replay send j seq out = Some (out @ fs, None)"
proof -
  have "\<forall>out. replay send j seq out = Some (out @ fs, None)"
  proof (rule drain.raw_induct [OF _ assms(2), where P = "\<lambda>seq j fs. \<forall>out. replay send j seq out = Some (out @ fs, None)"])
    fix dr after j y
    assume ih: "\<And>after j y. dr after j = Some y \<Longrightarrow> \<forall>out. replay send j after out = Some (out @ y, None)"
      and eq: "(let fs = Read after j in if fs = [] then Some [] else Option.bind (dr (Frame_Sequence (last fs)) j) (\<lambda>rest. Some (fs @ rest))) = Some y"
    show "\<forall>out. replay send j after out = Some (out @ y, None)"
    proof (cases "Read after j = []")
      case True
      with eq show ?thesis by (simp add: replay.simps [of send j after])
    next
      case False
      with eq obtain rest where "dr (Frame_Sequence (last (Read after j))) j = Some rest" "y = Read after j @ rest"
        by (auto simp: Let_def split: Option.bind_splits)
      with False ih assms(1) show ?thesis by (simp add: replay.simps [of send j after] send_all_ok Let_def)
    qed
  qed
  then show ?thesis by blast
qed

text \<open>C1. Attaching to a sandbox that has finished replays every retained frame of its log in order
  (after a gap notice when older frames were rotated away) and ends with the exit status: of the
  record when the sandbox still exists, else of the retained result.  A sandbox without an exit
  status is an error, and so is an exit whose status is unknown.\<close>

theorem attach_replays:
  assumes "retained root got found = Inr (x, path)"
    and "journal_inv (open_log path)" "Journal_seq (open_log path) + 1 < 2 ^ 64" "\<forall>k. send k = None"
  shows "retainedAttach root open_log send got found =
    (let j = open_log path;
         fs = (if 0 < Journal_seq j - length (Journal_frames j) \<and> Journal_frames j \<noteq> []
               then [gap_frame (Journal_seq j - length (Journal_frames j))] else []) @ Journal_frames j
     in Some (if Exit_Code x = None then (fs, Some (Errorf (Exit_Reason x))) else (fs @ [exit_frame x], None)))"
proof -
  let ?j = "open_log path"
  have "0 < Frame_Sequence f" if "f \<in> set (Journal_frames ?j)" for f
  proof -
    have m: "map Frame_Sequence (Journal_frames ?j) = [Suc (Journal_seq ?j) - length (Journal_frames ?j)..<Suc (Journal_seq ?j)]"
      and "length (Journal_frames ?j) \<le> Journal_seq ?j"
      using assms(2) by (simp_all only: journal_inv_def)
    have "Frame_Sequence f \<in> set (map Frame_Sequence (Journal_frames ?j))" using that by simp
    then have "Suc (Journal_seq ?j) - length (Journal_frames ?j) \<le> Frame_Sequence f" unfolding m by (simp del: upt_Suc)
    then show ?thesis using \<open>length (Journal_frames ?j) \<le> Journal_seq ?j\<close> by linarith
  qed
  then have fl: "filter (\<lambda>f. Frame_Sequence f > 0) (Journal_frames ?j) = Journal_frames ?j" by (simp add: filter_id_conv)
  note dr = drain_all [OF assms(2,3), of 0, unfolded fl]
  have "send = (\<lambda>_. None)" using assms(4) by auto
  then show ?thesis
    using replay_drain [where send = send, OF _ dr, where out = "[]"] assms(1)
    by (simp add: retainedAttach_def Let_def send_all_ok)
qed

theorem attach_replays_witness:
  "retainedAttach ''/r'' (\<lambda>_. \<lparr>Journal_Path = [], Journal_frames = [new_frame ''stdout'' ''a'' 4 0], Journal_bytes = 129, Journal_seq = 4\<rparr>)
     (\<lambda>_. None) (Inl ErrNotFound) (Inr \<lparr>result_Exit = demo_exit, result_ID = ''ab'', result_Name = ''x''\<rparr>) =
   Some ([gap_frame 3, new_frame ''stdout'' ''a'' 4 0, exit_frame demo_exit], None)"
proof -
  let ?j = "\<lparr>Journal_Path = [], Journal_frames = [new_frame ''stdout'' ''a'' 4 0], Journal_bytes = 129, Journal_seq = 4\<rparr>"
  let ?f = "Inr \<lparr>result_Exit = demo_exit, result_ID = ''ab'', result_Name = ''x''\<rparr>"
  have r: "retained ''/r'' (Inl ErrNotFound) ?f = Inr (demo_exit, path_Join [''/r'', ''results'', ''ab.log''])"
    by (simp add: retained_def)
  have "journal_inv ?j" by (simp add: journal_inv_def frame_cost_def new_frame_def Limit_def)
  from attach_replays [OF r, of "\<lambda>_. ?j" "\<lambda>_. None"] this show ?thesis by (simp add: Let_def demo_exit_def)
qed

end
