(* ===== verification/VmStart.thy ===== *)
theory VmStart
  imports Lifecycle
begin

text \<open>
  Starting a virtual machine, src/internal/firecracker/vm.go up to \<open>PIDStart\<close>: the checks of the
  host, the machine configuration, the files of the jail and the command line of the jailer.
  The outcome of each system call is a fault function over \<open>start_site\<close>; the jailer, a program of
  its own, is a parameter \<open>start_jailer\<close> from the host and its arguments to the host it leaves and
  the process that was started.

  The theory shows that a machine is started only with every drive of its configuration in
  its jail under the right owner, with a user and a vsock address of its own, and that the
  memory limit given to the jailer is the one that admission reserved.
\<close>

section \<open>Host checks\<close>

record host_check =
  hc_euid :: int
  hc_look :: "string \<Rightarrow> error option"
  hc_kvm :: "error option"
  hc_cgroup :: "error option"

fun check_paths :: "host_check \<Rightarrow> string list \<Rightarrow> error option" where
  "check_paths c [] = None"
| "check_paths c (p # ps) =
     (if p = [] then Some (Errorf ''Firecracker and jailer paths must be configured'')
      else case hc_look c p of Some e \<Rightarrow> Some e | None \<Rightarrow> check_paths c ps)"

definition Check :: "Manager \<Rightarrow> host_check \<Rightarrow> error option" where
  "Check m c =
     (if hc_euid c \<noteq> 0 then Some (Errorf ''niflheld must run as root to use jailer, KVM, cgroups, and networking'')
      else case check_paths c [Manager_Firecracker m, Manager_Jailer m] of Some e \<Rightarrow> Some e | None \<Rightarrow>
      (case hc_kvm c of Some e \<Rightarrow> Some (Errorf (''KVM unavailable: '' @ error_text e)) | None \<Rightarrow>
       if hc_cgroup c \<noteq> None then Some (Errorf ''cgroups v2 required'') else None))"

section \<open>The machine configuration\<close>

record Drive =
  Drive_ID :: string
  Drive_Path :: string
  Drive_Root :: bool
  Drive_ReadOnly :: bool

record VmConfig =
  VmConfig_Kernel :: string
  VmConfig_Args :: string
  VmConfig_CPUs :: int
  VmConfig_Memory :: int
  VmConfig_Drives :: "Drive list"
  VmConfig_Network :: "(string \<times> string) list list"
  VmConfig_guest_cid :: int
  VmConfig_uds_path :: string

definition fixed_drives :: "Drive list" where
  "fixed_drives =
     [\<lparr>Drive_ID = ''base-root'', Drive_Path = ''/base.ext4'', Drive_Root = True, Drive_ReadOnly = True\<rparr>,
      \<lparr>Drive_ID = ''bootstrap'', Drive_Path = ''/bootstrap.ext4'', Drive_Root = False, Drive_ReadOnly = True\<rparr>,
      \<lparr>Drive_ID = ''app-image'', Drive_Path = ''/app.ext4'', Drive_Root = False, Drive_ReadOnly = True\<rparr>,
      \<lparr>Drive_ID = ''state'', Drive_Path = ''/state.ext4'', Drive_Root = False, Drive_ReadOnly = False\<rparr>]"

definition volume_file :: "nat \<Rightarrow> string" where
  "volume_file i = ''volume-'' @ itoa_nat i @ ''.ext4''"

definition volume_drive :: "nat \<Rightarrow> Mount \<Rightarrow> Drive" where
  "volume_drive i mt = \<lparr>Drive_ID = ''volume-'' @ itoa_nat i, Drive_Path = ''/'' @ volume_file i, Drive_Root = False, Drive_ReadOnly = Mount_ReadOnly mt\<rparr>"

definition BuildConfig :: "Sandbox \<Rightarrow> VmConfig" where
  "BuildConfig s =
     \<lparr>VmConfig_Kernel = ''/kernel'',
      VmConfig_Args = ''console=ttyS0 reboot=k panic=1 pci=off root=/dev/vda ro init=/sbin/niflhel-init random.trust_cpu=on'',
      VmConfig_CPUs = Spec_CPUs (Sandbox_Spec s), VmConfig_Memory = go_div (Sandbox_GuestMemory s) MiB,
      VmConfig_Drives = fixed_drives @ map (\<lambda>(i, mt). volume_drive i mt) (enumerate 0 (Spec_Mounts (Sandbox_Spec s))),
      VmConfig_Network = (if Spec_Network (Sandbox_Spec s) = ''bridge''
        then [[(''iface_id'', ''eth0''), (''guest_mac'', ''06:00:ac:1e:00:02''), (''host_dev_name'', ''tap0'')]] else []),
      VmConfig_guest_cid = (3 + Sandbox_Slot s) mod 2 ^ 32, VmConfig_uds_path = ''/run/vsock''\<rparr>"

section \<open>The jail\<close>

text \<open>A file of the jail: what it is a link to (or that it was written there), its owner if it was
  changed, and its mode.\<close>

datatype jail_source = LinkOf string | Written

record jail_file =
  jf_source :: jail_source
  jf_uid :: "int option"
  jf_mode :: nat

type_synonym jail = "string \<Rightarrow> jail_file option"

datatype start_site =
  SiteMkdir | SiteLink string | SiteChown string | SiteChmod string | SiteCreds | SiteControl | SiteSeed
  | SiteBoot | SiteDisk | SiteConfig | SitePipe | SiteExecutable | SiteLogger

definition uid_of :: "Sandbox \<Rightarrow> int" where
  "uid_of s = wrap64 (100000 + Sandbox_Slot s)"

text \<open>The closure \<open>link\<close>; a new link has the owner and the mode of its source until they are changed,
  here \<open>None\<close> and 0.\<close>

definition link :: "(start_site \<Rightarrow> error option) \<Rightarrow> int \<Rightarrow> jail \<Rightarrow> string \<times> string \<times> bool \<Rightarrow> jail \<times> error option" where
  "link flt uid j v =
     (let (src, target, writable) = v; f = \<lparr>jf_source = LinkOf src, jf_uid = None, jf_mode = 0\<rparr> in
      case flt (SiteLink target) of
        Some e \<Rightarrow> (j(target := None), Some (Errorf (''base/state and jail must share a filesystem: '' @ error_text e)))
      | None \<Rightarrow>
          if writable then
            (case flt (SiteChown target) of
               Some e \<Rightarrow> (j(target \<mapsto> f), Some e)
             | None \<Rightarrow>
                 (let g = f\<lparr>jf_uid := Some uid\<rparr> in
                  case flt (SiteChmod target) of Some e \<Rightarrow> (j(target \<mapsto> g), Some e) | None \<Rightarrow> (j(target \<mapsto> g\<lparr>jf_mode := 384\<rparr>), None)))
          else (case flt (SiteChmod target) of Some e \<Rightarrow> (j(target \<mapsto> f), Some e) | None \<Rightarrow> (j(target \<mapsto> f\<lparr>jf_mode := 292\<rparr>), None)))"

fun link_all :: "(start_site \<Rightarrow> error option) \<Rightarrow> int \<Rightarrow> jail \<Rightarrow> (string \<times> string \<times> bool) list \<Rightarrow> jail \<times> error option" where
  "link_all flt uid j [] = (j, None)"
| "link_all flt uid j (v # vs) = (case link flt uid j v of (j1, Some e) \<Rightarrow> (j1, Some e) | (j1, None) \<Rightarrow> link_all flt uid j1 vs)"

definition fixed_links :: "Manager \<Rightarrow> Sandbox \<Rightarrow> Bundle \<Rightarrow> (string \<times> string \<times> bool) list" where
  "fixed_links m s b =
     (let dr = Manager_Dir m (Sandbox_ID s) in
      [(Bundle_KernelPath b, ''kernel'', False), (Bundle_RootFSPath b, ''base.ext4'', False),
       (path_Join [dr, ''app.ext4''], ''app.ext4'', False), (path_Join [dr, ''state.ext4''], ''state.ext4'', True)])"

fun link_volumes :: "Manager \<Rightarrow> (start_site \<Rightarrow> error option) \<Rightarrow> int \<Rightarrow> jail \<Rightarrow> nat \<Rightarrow> Mount list \<Rightarrow> jail \<times> error option" where
  "link_volumes m flt uid j i [] = (j, None)"
| "link_volumes m flt uid j i (mt # mts) =
     (case VolumePath (Manager_Storage m) (Mount_Name mt) of Inl e \<Rightarrow> (j, Some e) | Inr p \<Rightarrow>
      (case link flt uid j (p, volume_file i, True) of (j1, Some e) \<Rightarrow> (j1, Some e) | (j1, None) \<Rightarrow>
       link_volumes m flt uid j1 (Suc i) mts))"

text \<open>A step that only succeeds or fails.\<close>

definition attempt :: "error option \<Rightarrow> jail \<times> error option \<Rightarrow> jail \<Rightarrow> jail \<times> error option" where
  "attempt e k j = (case e of Some x \<Rightarrow> (j, Some x) | None \<Rightarrow> k)"

text \<open>The disk of the bootstrap data and the configuration file, written in the jail; a failing mode
  change of the disk is ignored.\<close>

definition write_boot :: "(start_site \<Rightarrow> error option) \<Rightarrow> jail \<Rightarrow> jail \<times> error option" where
  "write_boot flt j =
     attempt (flt SiteCreds) (attempt (flt SiteControl) (attempt (flt SiteSeed) (attempt (flt SiteBoot)
       (let j1 = j(''bootstrap.ext4'' := None) in
        case flt SiteDisk of Some e \<Rightarrow> (j1, Some e) | None \<Rightarrow>
        (let j2 = j1(''bootstrap.ext4'' \<mapsto> \<lparr>jf_source = Written, jf_uid = None,
                       jf_mode = (if flt (SiteChmod ''bootstrap.ext4'') = None then 292 else 384)\<rparr>) in
         case flt SiteConfig of Some e \<Rightarrow> (j2, Some e) | None \<Rightarrow>
           (j2(''vm.json'' \<mapsto> \<lparr>jf_source = Written, jf_uid = None, jf_mode = 292\<rparr>), None)))
       j) j) j) j"

definition Start_files :: "Manager \<Rightarrow> (start_site \<Rightarrow> error option) \<Rightarrow> jail \<Rightarrow> Sandbox \<Rightarrow> Bundle \<Rightarrow> jail \<times> error option" where
  "Start_files m flt j s b =
     (let uid = uid_of s in
      case flt SiteMkdir of Some e \<Rightarrow> (j, Some e) | None \<Rightarrow>
      (case link_all flt uid j (fixed_links m s b) of (j1, Some e) \<Rightarrow> (j1, Some e) | (j1, None) \<Rightarrow>
       (case link_volumes m flt uid j1 0 (Spec_Mounts (Sandbox_Spec s)) of (j2, Some e) \<Rightarrow> (j2, Some e) | (j2, None) \<Rightarrow>
        write_boot flt j2)))"

section \<open>The jailer\<close>

definition Start_args :: "Manager \<Rightarrow> Sandbox \<Rightarrow> string list" where
  "Start_args m s =
     [''--id'', Sandbox_ID s, ''--exec-file'', Manager_Firecracker m, ''--uid'', Itoa (uid_of s), ''--gid'', Itoa (uid_of s),
      ''--chroot-base-dir'', path_Join [Manager_Root m, ''jailer''], ''--cgroup-version'', ''2'', ''--parent-cgroup'', ''niflhel'',
      ''--cgroup'', ''memory.max='' @ Itoa (wrap64 (Sandbox_GuestMemory s + 64 * MiB)),
      ''--cgroup'', ''cpu.max='' @ Itoa (wrap64 (Spec_CPUs (Sandbox_Spec s) * 100000)) @ '' 100000''] @
     (if Spec_Network (Sandbox_Spec s) = ''bridge''
      then [''--netns'', ''/var/run/netns/'' @ (case For (Sandbox_ID s) (Sandbox_Slot s) of Inr c \<Rightarrow> Config_Namespace c | Inl _ \<Rightarrow> [])]
      else []) @
     [''--'', ''--api-sock'', ''/run/firecracker.sock'', ''--config-file'', ''/vm.json'']"

definition version_ok :: "string \<Rightarrow> string list \<Rightarrow> bool" where
  "version_ok out vs = list_ex (\<lambda>v. contains out (''Firecracker v'' @ v @ [CHR 0x0A])) vs"

text \<open>\<open>start_jailer\<close> runs the jailer, \<open>start_reap\<close> kills and reaps its process, \<open>start_read\<close> reads a file
  of the host.\<close>

record 'h start_env =
  start_check :: host_check
  start_version :: "string result"
  start_fault :: "start_site \<Rightarrow> error option"
  start_jailer :: "'h \<Rightarrow> string list \<Rightarrow> 'h \<times> int result"
  start_reap :: "'h \<Rightarrow> int \<Rightarrow> 'h"
  start_read :: "'h \<Rightarrow> reader"

definition spawn_vmm :: "'h start_env \<Rightarrow> string list \<Rightarrow> 'h \<Rightarrow> 'h \<times> (int \<times> string) result" where
  "spawn_vmm env args h =
     (case start_fault env SitePipe of Some e \<Rightarrow> (h, Inl e) | None \<Rightarrow>
      (case start_fault env SiteExecutable of Some e \<Rightarrow> (h, Inl e) | None \<Rightarrow>
       (case start_fault env SiteLogger of Some e \<Rightarrow> (h, Inl e) | None \<Rightarrow>
        (case start_jailer env h args of
           (h1, Inl e) \<Rightarrow> (h1, Inl e)
         | (h1, Inr pid) \<Rightarrow>
             (case pidStartAt (start_read env h1) ''/proc'' pid of
                Inl e \<Rightarrow> (start_reap env h1 pid, Inl e)
              | Inr start \<Rightarrow> (h1, Inr (pid, start)))))))"

definition Start_vm :: "Manager \<Rightarrow> 'h start_env \<Rightarrow> 'h \<Rightarrow> jail \<Rightarrow> Sandbox \<Rightarrow> Bundle \<Rightarrow> ('h \<times> jail) \<times> (int \<times> string) result" where
  "Start_vm m env h j s b =
     (case Check m (start_check env) of Some e \<Rightarrow> ((h, j), Inl e) | None \<Rightarrow>
      (case start_version env of Inl e \<Rightarrow> ((h, j), Inl e) | Inr version \<Rightarrow>
       if \<not> version_ok version (BaseConfig_FirecrackerVersions (Signed_Config (Bundle_Signed b)))
       then ((h, j), Inl (Errorf ''base is not qualified for installed Firecracker''))
       else case Start_files m (start_fault env) j s b of
         (j1, Some e) \<Rightarrow> ((h, j1), Inl e)
       | (j1, None) \<Rightarrow> (let (h1, r) = spawn_vmm env (Start_args m s) h in ((h1, j1), r))))"

section \<open>What a successful start leaves\<close>

definition linked :: "int \<Rightarrow> string \<Rightarrow> bool \<Rightarrow> jail_file" where
  "linked uid src rw = \<lparr>jf_source = LinkOf src, jf_uid = (if rw then Some uid else None), jf_mode = (if rw then 384 else 292)\<rparr>"

lemma link_ok: "link flt uid j (src, target, rw) = (j', None) \<Longrightarrow> j' = j(target \<mapsto> linked uid src rw)"
  by (auto simp: link_def linked_def Let_def split: option.splits if_splits)

lemma link_all_ok:
  "link_all flt uid j vs = (j', None) \<Longrightarrow> j' = foldl (\<lambda>j (src, target, rw). j(target \<mapsto> linked uid src rw)) j vs"
proof (induction vs arbitrary: j)
  case (Cons v vs)
  obtain src target rw where v: "v = (src, target, rw)" by (metis prod.exhaust)
  obtain j1 e where l: "link flt uid j v = (j1, e)" by (rule prod.exhaust)
  then have e: "e = None" using Cons.prems by (cases e) auto
  then have "link_all flt uid j1 vs = (j', None)" using Cons.prems l by simp
  then have "j' = foldl (\<lambda>j (src, target, rw). j(target \<mapsto> linked uid src rw)) j1 vs" by (rule Cons.IH)
  moreover have "j1 = j(target \<mapsto> linked uid src rw)" using link_ok l e v by simp
  ultimately show ?case using v by (simp only: foldl.simps prod.case)
qed simp

lemma volume_file_inject [simp]: "volume_file i = volume_file k \<longleftrightarrow> i = k"
  using itoa_nat_inj by (auto simp: volume_file_def)

lemma volume_file_other [simp]:
  "volume_file i \<noteq> ''kernel''" "volume_file i \<noteq> ''base.ext4''" "volume_file i \<noteq> ''app.ext4''" "volume_file i \<noteq> ''state.ext4''"
  "volume_file i \<noteq> ''bootstrap.ext4''" "volume_file i \<noteq> ''vm.json''"
  by (simp_all add: volume_file_def)

lemma link_volumes_ok:
  assumes "link_volumes m flt uid j i mts = (j', None)"
  shows "(\<forall>k < length mts. \<exists>p. VolumePath (Manager_Storage m) (Mount_Name (mts ! k)) = Inr p \<and> j' (volume_file (i + k)) = Some (linked uid p True)) \<and>
    (\<forall>n. (\<forall>k < length mts. n \<noteq> volume_file (i + k)) \<longrightarrow> j' n = j n)"
  using assms
proof (induction mts arbitrary: j i)
  case (Cons mt mts)
  obtain p where p: "VolumePath (Manager_Storage m) (Mount_Name mt) = Inr p" using Cons.prems by (auto split: sum.splits)
  obtain j1 e where l: "link flt uid j (p, volume_file i, True) = (j1, e)" by (rule prod.exhaust)
  then have e: "e = None" using Cons.prems p by (cases e) auto
  then have j1: "j1 = j(volume_file i \<mapsto> linked uid p True)" using link_ok l by simp
  have "link_volumes m flt uid j1 (Suc i) mts = (j', None)" using Cons.prems p l e by simp
  note ih = Cons.IH [OF this]
  have "\<exists>p. VolumePath (Manager_Storage m) (Mount_Name ((mt # mts) ! k)) = Inr p \<and> j' (volume_file (i + k)) = Some (linked uid p True)"
    if "k < length (mt # mts)" for k
  proof (cases k)
    case 0
    then show ?thesis using p j1 ih by simp
  next
    case (Suc n)
    then show ?thesis using ih that by simp
  qed
  moreover have "j' n = j n" if "\<forall>k < length (mt # mts). n \<noteq> volume_file (i + k)" for n
  proof -
    have "n \<noteq> volume_file i" "\<forall>k < length mts. n \<noteq> volume_file (Suc i + k)" using that by (auto dest: spec [of _ 0] spec [of _ "Suc _"])
    then show ?thesis using ih j1 by simp
  qed
  ultimately show ?case by blast
qed simp

lemma write_boot_ok:
  assumes "write_boot flt j = (j', None)"
  shows "\<exists>f g. j' = j(''bootstrap.ext4'' \<mapsto> f, ''vm.json'' \<mapsto> g) \<and> jf_source f = Written \<and> jf_source g = Written"
proof -
  let ?f = "\<lparr>jf_source = Written, jf_uid = None, jf_mode = (if flt (SiteChmod ''bootstrap.ext4'') = None then 292 else 384)\<rparr>"
  have "j' = j(''bootstrap.ext4'' \<mapsto> ?f, ''vm.json'' \<mapsto> \<lparr>jf_source = Written, jf_uid = None, jf_mode = 292\<rparr>)"
    using assms by (auto simp: write_boot_def attempt_def Let_def split: option.splits)
  then show ?thesis by (intro exI [of _ ?f] exI) (rule conjI, assumption, simp)
qed

text \<open>The files of a jail in which the machine can boot.\<close>

definition provisioned :: "Manager \<Rightarrow> Sandbox \<Rightarrow> Bundle \<Rightarrow> jail \<Rightarrow> bool" where
  "provisioned m s b j \<longleftrightarrow>
     j ''kernel'' = Some (linked (uid_of s) (Bundle_KernelPath b) False) \<and>
     j ''base.ext4'' = Some (linked (uid_of s) (Bundle_RootFSPath b) False) \<and>
     j ''app.ext4'' = Some (linked (uid_of s) (path_Join [Manager_Dir m (Sandbox_ID s), ''app.ext4'']) False) \<and>
     j ''state.ext4'' = Some (linked (uid_of s) (path_Join [Manager_Dir m (Sandbox_ID s), ''state.ext4'']) True) \<and>
     (\<exists>f. j ''bootstrap.ext4'' = Some f \<and> jf_source f = Written) \<and> (\<exists>f. j ''vm.json'' = Some f \<and> jf_source f = Written) \<and>
     (\<forall>k < length (Spec_Mounts (Sandbox_Spec s)). \<exists>p. VolumePath (Manager_Storage m) (Mount_Name (Spec_Mounts (Sandbox_Spec s) ! k)) = Inr p \<and>
        j (volume_file k) = Some (linked (uid_of s) p True))"

lemma Start_files_provisioned:
  assumes "Start_files m flt j s b = (j', None)"
  shows "provisioned m s b j'"
proof -
  obtain j1 e1 where 1: "link_all flt (uid_of s) j (fixed_links m s b) = (j1, e1)" by (rule prod.exhaust)
  obtain j2 e2 where 2: "link_volumes m flt (uid_of s) j1 0 (Spec_Mounts (Sandbox_Spec s)) = (j2, e2)" by (rule prod.exhaust)
  have e: "e1 = None" "e2 = None" "write_boot flt j2 = (j', None)"
    using assms 1 2 by (auto simp: Start_files_def Let_def split: option.splits)
  note l1 = link_all_ok [OF 1 [unfolded e]]
  note l2 = link_volumes_ok [OF 2 [unfolded e]]
  obtain f g where l3: "j' = j2(''bootstrap.ext4'' \<mapsto> f, ''vm.json'' \<mapsto> g)" "jf_source f = Written" "jf_source g = Written"
    using write_boot_ok [OF e(3)] by blast
  have n: "\<forall>k < length (Spec_Mounts (Sandbox_Spec s)). x \<noteq> volume_file (0 + k)" if "x \<in> {''kernel'', ''base.ext4'', ''app.ext4'', ''state.ext4''}" for x
    using that volume_file_other by fastforce
  have f: "j2 x = j1 x" if "x \<in> {''kernel'', ''base.ext4'', ''app.ext4'', ''state.ext4''}" for x
    using l2 n [OF that] by blast
  show ?thesis
    unfolding provisioned_def using l2 l3 f l1 by (auto simp: fixed_links_def Let_def)
qed

text \<open>A drive finds its file in the jail under the path of the configuration.\<close>

lemma drive_present:
  assumes "provisioned m s b j" "d \<in> set (VmConfig_Drives (BuildConfig s))"
  shows "\<exists>f. Drive_Path d = ''/'' @ drop 1 (Drive_Path d) \<and> j (drop 1 (Drive_Path d)) = Some f \<and>
    (\<not> Drive_ReadOnly d \<longrightarrow> jf_uid f = Some (uid_of s) \<and> jf_mode f = 384)"
proof -
  have "d \<in> set fixed_drives \<or> (\<exists>k < length (Spec_Mounts (Sandbox_Spec s)). d = volume_drive k (Spec_Mounts (Sandbox_Spec s) ! k))"
    using assms(2) by (auto simp: BuildConfig_def in_set_enumerate_eq)
  then show ?thesis
  proof
    assume "d \<in> set fixed_drives"
    then show ?thesis using assms(1) by (auto simp: fixed_drives_def provisioned_def linked_def)
  next
    assume "\<exists>k < length (Spec_Mounts (Sandbox_Spec s)). d = volume_drive k (Spec_Mounts (Sandbox_Spec s) ! k)"
    then obtain k where k: "k < length (Spec_Mounts (Sandbox_Spec s))" "d = volume_drive k (Spec_Mounts (Sandbox_Spec s) ! k)" by blast
    then obtain p where "j (volume_file k) = Some (linked (uid_of s) p True)" using assms(1) unfolding provisioned_def by blast
    with k(2) show ?thesis by (simp add: volume_drive_def linked_def)
  qed
qed


definition demo_start :: "unit start_env" where
  "demo_start = \<lparr>start_check = \<lparr>hc_euid = 0, hc_look = \<lambda>_. None, hc_kvm = None, hc_cgroup = None\<rparr>,
     start_version = Inr (''Firecracker v1.12.0'' @ [CHR 0x0A]), start_fault = \<lambda>_. None, start_jailer = \<lambda>h args. (h, Inr 7), start_reap = \<lambda>h _. h,
     start_read = \<lambda>_. read_file (demo_host True)\<rparr>"

definition demo_bundle :: Bundle where
  "demo_bundle = \<lparr>Bundle_Ref = ''base'', Bundle_Digest = [], Bundle_Signed = \<lparr>Signed_Config = \<lparr>BaseConfig_SchemaVersion = 1, BaseConfig_OS = ''linux'',
     BaseConfig_Architecture = ''amd64'', BaseConfig_AgentProtocol = 1, BaseConfig_InitPath = ''/sbin/niflhel-init'', BaseConfig_Runtime = ''runc'',
     BaseConfig_GuestReserveMiB = 128, BaseConfig_FirecrackerVersions = [''1.12.0''],
     BaseConfig_Kernel = \<lparr>Descriptor_Digest = [], Descriptor_Size = 0, Descriptor_MediaType = []\<rparr>,
     BaseConfig_RootFS = \<lparr>Descriptor_Digest = [], Descriptor_Size = 0, Descriptor_MediaType = []\<rparr>\<rparr>, Signed_KeyID = [], Signed_Signature = []\<rparr>,
     Bundle_KernelPath = ''/v/k'', Bundle_RootFSPath = ''/v/r''\<rparr>"

lemma demo_start_runs: "\<exists>j'. Start_vm demo_manager demo_start () Map.empty demo_sandbox demo_bundle = (((), j'), Inr (7, ''b7:42''))"
proof -
  have ps: "pidStartAt (read_file (demo_host True)) ''/proc'' 7 = Inr ''b7:42''"
    unfolding host.pidStart [OF demo_ok] by (simp add: demo_host_def demo_process_def p_start_def nth_append)
  have v: "version_ok (''Firecracker v1.12.0'' @ [CHR 0x0A]) [''1.12.0'']" by (simp add: version_ok_def contains_def)
  have c: "Check demo_manager (start_check demo_start) = None" by (simp add: Check_def demo_start_def demo_manager_def)
  obtain j' where f: "Start_files demo_manager (\<lambda>_. None) Map.empty demo_sandbox demo_bundle = (j', None)"
    by (simp add: Start_files_def fixed_links_def Let_def link_def write_boot_def attempt_def demo_sandbox_def DefaultSpec_def)
  show ?thesis
    unfolding Start_vm_def c using ps v f by (simp add: demo_start_def spawn_vmm_def demo_bundle_def Let_def)
qed


section \<open>Identity and memory of a machine\<close>

text \<open>C1. A machine has the memory that was asked for, and no more than was reserved for it: for a
  specification within its limits, the machine of a prepared sandbox has its memory rounded up to
  MiB and the reserve of the base, the limit given to the jailer is that plus 64 MiB and is what
  admission counts, and none of the sums wraps around.  Sandboxes in different slots run under
  different users and vsock addresses, none of them reserved ones.\<close>

theorem machine_envelope:
  assumes "wf_limits (Sandbox_Spec v)" "BaseConfig_GuestReserveMiB (Signed_Config (Bundle_Signed b)) \<in> {64..4096}"
    and "1 \<le> Sandbox_Slot v" "Sandbox_Slot v \<le> 16000" "1 \<le> Sandbox_Slot w" "Sandbox_Slot w \<le> 16000"
    and "Sandbox_Slot v \<noteq> Sandbox_Slot w"
  shows "let u = prepared v img b p; mem = VmConfig_Memory (BuildConfig u) * MiB in
    Spec_Memory (Sandbox_Spec v) + BaseConfig_GuestReserveMiB (Signed_Config (Bundle_Signed b)) * MiB \<le> mem \<and>
    mem < Spec_Memory (Sandbox_Spec v) + BaseConfig_GuestReserveMiB (Signed_Config (Bundle_Signed b)) * MiB + MiB \<and>
    envelope u = mem + 64 * MiB \<and> ''memory.max='' @ Itoa (envelope u) \<in> set (Start_args m u) \<and>
    uid_of u \<noteq> uid_of w \<and> VmConfig_guest_cid (BuildConfig u) \<noteq> VmConfig_guest_cid (BuildConfig w) \<and>
    100000 < uid_of u \<and> 2 < VmConfig_guest_cid (BuildConfig u)"
proof -
  let ?r = "BaseConfig_GuestReserveMiB (Signed_Config (Bundle_Signed b))" and ?m = "Spec_Memory (Sandbox_Spec v)"
  let ?q = "(?m + (MiB - 1)) div MiB" and ?u = "prepared v img b p"
  have m: "64 * MiB \<le> ?m" "?m \<le> 1024 * GiB" using assms(1) by (simp_all add: wf_limits_def)
  have q: "?m \<le> ?q * MiB" "?q * MiB < ?m + MiB" "64 \<le> ?q" "?q \<le> 1048576"
    using m by (simp_all add: MiB_def GiB_def)
  have gd: "go_div a MiB = a div MiB" if "0 \<le> a" for a
    using that by (cases "a = 0") (simp_all add: go_div_def MiB_def)
  have i1: "wrap64 (wrap64 (?m + MiB) - 1) = ?m + (MiB - 1)" using m by (simp add: in_int64_def max_int64_def MiB_def GiB_def)
  have i2: "wrap64 (?q + ?r) = ?q + ?r" "wrap64 ((?q + ?r) * MiB) = (?q + ?r) * MiB"
    using q(3,4) assms(2) by (simp_all add: in_int64_def max_int64_def MiB_def)
  have g: "Sandbox_GuestMemory ?u = (?q + ?r) * MiB"
    using i1 i2 gd [of "?m + (MiB - 1)"] m by (simp add: prepared_def guest_memory_def MiB_def)
  have b: "0 \<le> (?q + ?r) * MiB" "(?q + ?r) * MiB \<le> 2 ^ 45" using q(3,4) assms(2) by (simp_all add: MiB_def)
  have mem: "VmConfig_Memory (BuildConfig ?u) * MiB = (?q + ?r) * MiB"
    using g gd [OF b(1)] by (simp add: BuildConfig_def MiB_def)
  have env: "envelope ?u = (?q + ?r) * MiB + 64 * MiB"
    using g b by (simp add: envelope_def in_int64_def max_int64_def MiB_def)
  have "''memory.max='' @ Itoa (envelope ?u) \<in> set (Start_args m ?u)" by (simp add: Start_args_def envelope_def)
  moreover have "Sandbox_Slot ?u = Sandbox_Slot v" by (simp add: prepared_def)
  then have "uid_of ?u = 100000 + Sandbox_Slot v" "uid_of w = 100000 + Sandbox_Slot w"
      "VmConfig_guest_cid (BuildConfig ?u) = 3 + Sandbox_Slot v" "VmConfig_guest_cid (BuildConfig w) = 3 + Sandbox_Slot w"
    using assms(3-6) by (simp_all add: uid_of_def BuildConfig_def in_int64_def max_int64_def)
  ultimately show ?thesis
    using q(1,2) env assms(3,5,7) unfolding Let_def mem by (simp add: distrib_right)
qed

theorem machine_envelope_witness:
  "let u = prepared (demo_sandbox\<lparr>Sandbox_Spec := DefaultSpec\<lparr>Spec_Memory := 64 * MiB + 1\<rparr>\<rparr>) \<lparr>Image_Ref = [], Image_Digest = [],
       Image_Config = \<lparr>ImageConfig_Entrypoint = [], ImageConfig_Cmd = [], ImageConfig_Env = [], ImageConfig_User = [], ImageConfig_WorkingDir = [],
         ImageConfig_StopSignal = [], ImageConfig_Volumes = [], ImageConfig_Healthcheck = False\<rparr>,
       Image_Layers = [], Image_DiffIDs = [], Image_Manifest = []\<rparr> demo_bundle (Sandbox_Process demo_sandbox)
   in envelope u = VmConfig_Memory (BuildConfig u) * MiB + 64 * MiB \<and> uid_of u \<noteq> uid_of (demo_sandbox\<lparr>Sandbox_Slot := 2\<rparr>)"
proof -
  let ?v = "demo_sandbox\<lparr>Sandbox_Spec := DefaultSpec\<lparr>Spec_Memory := 64 * MiB + 1\<rparr>\<rparr>"
  have "wf_limits (Sandbox_Spec ?v)" by (simp add: wf_limits_def DefaultSpec_def MiB_def GiB_def)
  moreover have "BaseConfig_GuestReserveMiB (Signed_Config (Bundle_Signed demo_bundle)) \<in> {64..4096}" by (simp add: demo_bundle_def)
  moreover have "Sandbox_Slot ?v = 1" by (simp add: demo_sandbox_def)
  ultimately show ?thesis
    using machine_envelope [of ?v demo_bundle "demo_sandbox\<lparr>Sandbox_Slot := 2\<rparr>"] unfolding Let_def by simp
qed

end
