(* ===== verification/Handler.thy ===== *)
theory Handler
  imports Lifecycle Results
begin

text \<open>
  The control requests of the daemon, src/internal/daemon/handler.go and validate.go: one reply
  constructor per type that a request answers with, one definition per request that has a body
  of its own, and the dispatchers \<open>Call\<close> and \<open>Session\<close>.  The image and base stores are a record
  \<open>Catalog\<close> of functions over the daemon's image state; \<open>Handler_env\<close> has the decoders of the
  request data, what a waiting request observes, and the daemon as others leave it meanwhile.

  The lemmas show the type of each reply, that a request that is refused changes nothing, and
  that removing an image, base or volume is refused while a sandbox refers to it.
\<close>

section \<open>Requests\<close>

record Validation =
  Validation_BaseDigest :: string
  Validation_Firecracker :: string
  Validation_At :: int
  Validation_ApplicationExit :: int

datatype reply =
    ReplyNil
  | ReplyVersion string int
  | ReplyInfo string int string string
  | ReplySandbox Sandbox
  | ReplySandboxes "Sandbox list"
  | ReplyExit Exit
  | ReplyFrames "Frame list"
  | ReplyImage Image
  | ReplyImages "Image list"
  | ReplyBase Bundle
  | ReplyBases "Bundle list"
  | ReplyValidation Validation
  | ReplyVolume Volume
  | ReplyVolumes "Volume list"

record 'r Catalog =
  Cat_ListImages :: "'r \<Rightarrow> Image list result"
  Cat_GetImage :: "'r \<Rightarrow> string \<Rightarrow> Image result"
  Cat_RemoveImage :: "'r \<Rightarrow> string \<Rightarrow> 'r \<times> error option"
  Cat_PushBase :: "'r \<Rightarrow> string \<Rightarrow> error option"
  Cat_ListBases :: "'r \<Rightarrow> Bundle list result"
  Cat_RemoveBase :: "'r \<Rightarrow> string \<Rightarrow> 'r \<times> error option"
  Cat_FindResult :: "'r \<Rightarrow> string \<Rightarrow> 'r \<times> saved_result result"
  Cat_Log :: "'r \<Rightarrow> string \<Rightarrow> Journal"
  Cat_SaveValidation :: "'r \<Rightarrow> string \<Rightarrow> Validation \<Rightarrow> 'r \<times> error option"

record waiting =
  w_obs :: "nat \<Rightarrow> Sandbox result"
  w_saved :: "nat \<Rightarrow> Exit result"
  w_ctx :: "nat \<Rightarrow> error option"

text \<open>\<open>he_wait k\<close> is what the k-th wait of a request observes, \<open>he_later\<close> the daemon as others leave it
  meanwhile, \<open>he_probe\<close> the frames of the probe session and the error that ends them.\<close>

record ('h, 'n, 'r) Handler_env =
  he_catalog :: "'r Catalog"
  he_auth :: "string \<Rightarrow> error option"
  he_cursor :: "string \<Rightarrow> nat result"
  he_wait :: "nat \<Rightarrow> waiting"
  he_later :: "('h, 'n, 'r) Daemon \<Rightarrow> ('h, 'n, 'r) Daemon"
  he_probe :: "(Frame list \<times> error) result"

type_synonym ('h, 'n, 'r) outcome = "('h, 'n, 'r) Daemon \<times> reply result"

definition Version :: string where "Version = ''0.1.0''"

definition answer_of :: "('a \<Rightarrow> reply) \<Rightarrow> ('h, 'n, 'r) Daemon \<times> 'a result \<Rightarrow> ('h, 'n, 'r) outcome" where
  "answer_of f out = (case out of (d, Inl e) \<Rightarrow> (d, Inl e) | (d, Inr a) \<Rightarrow> (d, Inr (f a)))"

definition nil_of :: "('h, 'n, 'r) Daemon \<times> error option \<Rightarrow> ('h, 'n, 'r) outcome" where
  "nil_of out = (case out of (d, Some e) \<Rightarrow> (d, Inl e) | (d, None) \<Rightarrow> (d, Inr ReplyNil))"

definition signal_guest :: "('h, 'n, 'r) Services \<Rightarrow> ('h, 'n, 'r) Daemon \<Rightarrow> Request \<Rightarrow> ('h, 'n, 'r) outcome" where
  "signal_guest svc d q =
     (case d_Get svc d (Request_ID q) of (d1, Inl e) \<Rightarrow> (d1, Inl e) | (d1, Inr s) \<Rightarrow>
      if Sandbox_State s \<noteq> ''running'' \<and> Sandbox_State s \<noteq> ''stopping'' then (d1, Inl (Errorf ''container not running''))
      else case VM_Client (Svc_VM svc) (Daemon_vm d1) s of Some e \<Rightarrow> (d1, Inl e) | None \<Rightarrow>
      (case on_vm (\<lambda>h. VM_Call (Svc_VM svc) h s (Request0\<lparr>Request_Action := ''signal'', Request_Signal := Request_Signal q\<rparr>)) d1 of
         (d2, Inl e) \<Rightarrow> (d2, Inl e) | (d2, Inr _) \<Rightarrow> (d2, Inr ReplyNil)))"

definition find_result :: "('h, 'n, 'r) Handler_env \<Rightarrow> ('h, 'n, 'r) Daemon \<Rightarrow> string \<Rightarrow> ('h, 'n, 'r) Daemon \<times> saved_result result" where
  "find_result env d ref = on_repo (\<lambda>r. Cat_FindResult (he_catalog env) r ref) d"

definition read_logs :: "('h, 'n, 'r) Services \<Rightarrow> ('h, 'n, 'r) Handler_env \<Rightarrow> ('h, 'n, 'r) Daemon \<Rightarrow> Request \<Rightarrow> ('h, 'n, 'r) outcome" where
  "read_logs svc env d q =
     (case (case d_Get svc d (Request_ID q) of
              (d1, Inr s) \<Rightarrow> (d1, Inr (path_Join [dir d (Sandbox_ID s), ''application.log'']))
            | (d1, Inl _) \<Rightarrow>
                (case find_result env d1 (Request_ID q) of
                   (d2, Inl e) \<Rightarrow> (d2, Inl e)
                 | (d2, Inr r) \<Rightarrow> (d2, Inr (path_Join [DaemonConfig_Root (Daemon_Config d), ''results'', result_ID r @ ''.log''])))) of
        (d3, Inl e) \<Rightarrow> (d3, Inl e)
      | (d3, Inr path) \<Rightarrow>
          (case (if Request_Data q \<noteq> [] then he_cursor env (Request_Data q) else Inr 0) of
             Inl e \<Rightarrow> (d3, Inl e)
           | Inr cursor \<Rightarrow> (d3, Inr (ReplyFrames (Read cursor (Cat_Log (he_catalog env) (Daemon_repo d3) path))))))"

section \<open>Images, bases and volumes\<close>

definition image_rm :: "('h, 'n, 'r) Services \<Rightarrow> ('h, 'n, 'r) Handler_env \<Rightarrow> ('h, 'n, 'r) Daemon \<Rightarrow> string \<Rightarrow> ('h, 'n, 'r) outcome" where
  "image_rm svc env d ref =
     (case Cat_GetImage (he_catalog env) (Daemon_repo d) ref of Inl e \<Rightarrow> (d, Inl e) | Inr img \<Rightarrow>
      (case d_List svc d of (d1, Inl e) \<Rightarrow> (d1, Inl e) | (d1, Inr all) \<Rightarrow>
       (case find (\<lambda>s. Sandbox_ImageDigest s = Image_Digest img) all of
          Some s \<Rightarrow> (d1, Inl (Errorf (''image referenced by '' @ Sandbox_Name s)))
        | None \<Rightarrow> nil_of (on_repo (\<lambda>r. Cat_RemoveImage (he_catalog env) r ref) d1))))"

definition base_rm :: "('h, 'n, 'r) Services \<Rightarrow> ('h, 'n, 'r) Handler_env \<Rightarrow> ('h, 'n, 'r) Daemon \<Rightarrow> string \<Rightarrow> ('h, 'n, 'r) outcome" where
  "base_rm svc env d ref =
     (case Repo_GetBase (Svc_Repo svc) (Daemon_repo d) ref of Inl e \<Rightarrow> (d, Inl e) | Inr b \<Rightarrow>
      (case d_List svc d of (d1, Inl e) \<Rightarrow> (d1, Inl e) | (d1, Inr all) \<Rightarrow>
       (case find (\<lambda>s. Sandbox_BaseDigest s = Bundle_Digest b) all of
          Some s \<Rightarrow> (d1, Inl (Errorf (''base referenced by '' @ Sandbox_Name s)))
        | None \<Rightarrow> nil_of (on_repo (\<lambda>r. Cat_RemoveBase (he_catalog env) r ref) d1))))"

definition d_PutVolume :: "('h, 'n, 'r) Services \<Rightarrow> ('h, 'n, 'r) Daemon \<Rightarrow> Volume \<Rightarrow> ('h, 'n, 'r) Daemon \<times> error option" where
  "d_PutVolume svc d v = (let (st, e) = PutVolume (d_db svc d) (Daemon_Store d) v in ((called d)\<lparr>Daemon_Store := st\<rparr>, e))"

definition d_DeleteVolume :: "('h, 'n, 'r) Services \<Rightarrow> ('h, 'n, 'r) Daemon \<Rightarrow> string \<Rightarrow> ('h, 'n, 'r) Daemon \<times> error option" where
  "d_DeleteVolume svc d n = (let (st, e) = DeleteVolume (d_db svc d) (Daemon_Store d) n in ((called d)\<lparr>Daemon_Store := st\<rparr>, e))"

definition volume_create :: "('h, 'n, 'r) Services \<Rightarrow> ('h, 'n, 'r) Daemon \<Rightarrow> Volume option \<Rightarrow> ('h, 'n, 'r) outcome" where
  "volume_create svc d vo =
     (case vo of None \<Rightarrow> (d, Inl (Errorf ''valid volume name required'')) | Some v1 \<Rightarrow>
      if \<not> ValidName (Volume_Name v1) then (d, Inl (Errorf ''valid volume name required''))
      else
        (let v = v1\<lparr>Volume_Created := d_now svc d\<rparr> in
         case VolumePath (DaemonConfig_Root (Daemon_Config d)) (Volume_Name v) of Inl e \<Rightarrow> (d, Inl e) | Inr p \<Rightarrow>
         (case on_repo (\<lambda>r. Repo_Disk (Svc_Repo svc) r p (Volume_Size v) []) d of (d1, Some e) \<Rightarrow> (d1, Inl e) | (d1, None) \<Rightarrow>
          (case d_PutVolume svc d1 v of
             (d2, Some e) \<Rightarrow> (fst (on_repo (\<lambda>r. Repo_Remove (Svc_Repo svc) r p) d2), Inl e)
           | (d2, None) \<Rightarrow> (d2, Inr (ReplyVolume v))))))"

definition volume_rm :: "('h, 'n, 'r) Services \<Rightarrow> ('h, 'n, 'r) Daemon \<Rightarrow> string \<Rightarrow> ('h, 'n, 'r) outcome" where
  "volume_rm svc d ref =
     (case Volume_get (d_db svc d) (Daemon_Store d) ref of Inl e \<Rightarrow> (called d, Inl e) | Inr v \<Rightarrow>
      (case d_List svc (called d) of (d1, Inl e) \<Rightarrow> (d1, Inl e) | (d1, Inr all) \<Rightarrow>
       (case find (\<lambda>s. Volume_Name v \<in> set (mount_names (Sandbox_Spec s))) all of
          Some s \<Rightarrow> (d1, Inl (Errorf (''volume referenced by '' @ Sandbox_Name s)))
        | None \<Rightarrow>
          (case VolumePath (DaemonConfig_Root (Daemon_Config d)) (Volume_Name v) of Inl e \<Rightarrow> (d1, Inl e) | Inr p \<Rightarrow>
           (case on_repo (\<lambda>r. Repo_Remove (Svc_Repo svc) r p) d1 of
              (d2, Some e) \<Rightarrow> if e = ErrNotExist then nil_of (d_DeleteVolume svc d2 (Volume_Name v)) else (d2, Inl e)
            | (d2, None) \<Rightarrow> nil_of (d_DeleteVolume svc d2 (Volume_Name v)))))))"

section \<open>Waiting requests\<close>

definition h_Wait :: "('h, 'n, 'r) Handler_env \<Rightarrow> nat \<Rightarrow> Exit result option" where
  "h_Wait env k = (let w = he_wait env k in Wait (w_obs w) (w_saved w) (w_ctx w) 0)"

definition h_Stop :: "('h, 'n, 'r) Services \<Rightarrow> ('h, 'n, 'r) Handler_env \<Rightarrow> ('h, 'n, 'r) Daemon \<Rightarrow> string \<Rightarrow> int \<Rightarrow> (('h, 'n, 'r) Daemon \<times> error option) option" where
  "h_Stop svc env d ref seconds =
     (let w = he_wait env 0; (d1, r) = Stop svc d ref seconds (w_obs w) (w_saved w) (w_ctx w)
      in map_option (\<lambda>e. (he_later env d1, e)) r)"

definition restart :: "('h, 'n, 'r) Services \<Rightarrow> ('h, 'n, 'r) Handler_env \<Rightarrow> ('h, 'n, 'r) Daemon \<Rightarrow> Request \<Rightarrow> ('h, 'n, 'r) outcome option" where
  "restart svc env d q =
     map_option (\<lambda>(d1, e). case e of Some e \<Rightarrow> (d1, Inl e) | None \<Rightarrow> answer_of ReplySandbox (Start svc d1 (Request_ID q)))
       (h_Stop svc env d (Request_ID q) (Request_Timeout q))"

section \<open>Validating a base\<close>

fun probe_loop :: "string \<Rightarrow> error \<Rightarrow> Frame list \<Rightarrow> error option" where
  "probe_loop out eof [] = Some eof"
| "probe_loop out eof (f # fs) =
     (if Frame_Type f = ''error'' then Some (Errorf (Frame_Message f))
      else
        (let out1 = (if Frame_Type f = ''stdout'' then out @ Frame_Data f else out) in
         if Frame_Type f = ''stdout'' \<and> length out1 > 1024 then Some (Errorf ''unexpected probe output'')
         else if Frame_Type f = ''exit'' then
           (if Frame_Code f \<noteq> Some 0 \<or> out1 \<noteq> ''niflhel-exec-ready'' then Some (Errorf ''guest exec smoke test failed'') else None)
         else probe_loop out1 eof fs))"

definition probe_spec :: "Bundle \<Rightarrow> Spec" where
  "probe_spec b = DefaultSpec\<lparr>Spec_Image := ''busybox:1.37'', Spec_Base := Bundle_Digest b, Spec_Network := ''none'',
     Spec_Command := [''sh'', ''-c'', ''echo niflhel-base-ready; sleep 30'']\<rparr>"

text \<open>The part of \<open>ValidateBase\<close> between the creation of its sandbox and the deferred removal.\<close>

definition validate_run :: "('h, 'n, 'r) Services \<Rightarrow> ('h, 'n, 'r) Handler_env \<Rightarrow> ('h, 'n, 'r) Daemon \<Rightarrow> Bundle \<Rightarrow> string \<Rightarrow> (('h, 'n, 'r) Daemon \<times> Validation result) option" where
  "validate_run svc env d b sid =
     (case Start svc d sid of (d1, Inl e) \<Rightarrow> Some (d1, Inl e) | (d1, Inr v) \<Rightarrow>
      (case VM_Client (Svc_VM svc) (Daemon_vm d1) v of Some e \<Rightarrow> Some (d1, Inl e) | None \<Rightarrow>
       (case (case he_probe env of Inl e \<Rightarrow> Some e | Inr (fs, eof) \<Rightarrow> probe_loop [] eof fs) of
          Some e \<Rightarrow> Some (d1, Inl e)
        | None \<Rightarrow>
          Option.bind (h_Stop svc env d1 (Sandbox_ID v) 1) (\<lambda>(d2, e).
            case e of Some e \<Rightarrow> Some (d2, Inl e) | None \<Rightarrow>
            Option.bind (h_Wait env 1) (\<lambda>w.
              case w of Inl e \<Rightarrow> Some (d2, Inl e) | Inr exit \<Rightarrow>
              (case Exit_Code exit of
                 None \<Rightarrow> Some (d2, Inl (Errorf ''guest exit status unavailable''))
               | Some c \<Rightarrow>
                   (let report = \<lparr>Validation_BaseDigest = Bundle_Digest b, Validation_Firecracker = DaemonConfig_Firecracker (Daemon_Config d2),
                                  Validation_At = d_now svc d2, Validation_ApplicationExit = c\<rparr>;
                        p = path_Join [DaemonConfig_Root (Daemon_Config d2), ''bases'', ''validated'', drop 7 (Bundle_Digest b) @ ''.json'']
                    in case on_repo (\<lambda>r. Cat_SaveValidation (he_catalog env) r p report) d2 of
                         (d3, Some e) \<Rightarrow> Some (d3, Inl e) | (d3, None) \<Rightarrow> Some (d3, Inr report))))))))"

definition ValidateBase :: "('h, 'n, 'r) Services \<Rightarrow> ('h, 'n, 'r) Handler_env \<Rightarrow> ('h, 'n, 'r) Daemon \<Rightarrow> string \<Rightarrow> (('h, 'n, 'r) Daemon \<times> Validation result) option" where
  "ValidateBase svc env d ref =
     (case Repo_GetBase (Svc_Repo svc) (Daemon_repo d) ref of Inl e \<Rightarrow> Some (d, Inl e) | Inr b \<Rightarrow>
      (case Create svc d (probe_spec b) of (d1, Inl e) \<Rightarrow> Some (d1, Inl e) | (d1, Inr v) \<Rightarrow>
       map_option (\<lambda>(d2, r). (fst (Remove svc d2 (Sandbox_ID v) True), r)) (validate_run svc env d1 b (Sandbox_ID v))))"

section \<open>Dispatch\<close>

definition needs_auth :: "Request \<Rightarrow> bool" where
  "needs_auth q \<longleftrightarrow> Request_Data q \<noteq> [] \<and> Request_Action q \<in> {''create'', ''pull'', ''base-pull'', ''base-push'', ''base-validate''}"

definition dispatch :: "('h, 'n, 'r) Services \<Rightarrow> ('h, 'n, 'r) Handler_env \<Rightarrow> ('h, 'n, 'r) Daemon \<Rightarrow> Request \<Rightarrow> ('h, 'n, 'r) outcome option" where
  "dispatch svc env d q =
     (let a = Request_Action q; ref = Request_ID q; cat = he_catalog env in
      if a = ''version'' then Some (d, Inr (ReplyVersion Version Protocol))
      else if a = ''info'' then Some (d, Inr (ReplyInfo Version Protocol (DaemonConfig_DefaultBase (Daemon_Config d)) (DaemonConfig_Root (Daemon_Config d))))
      else if a = ''create'' then
        (case Request_Spec q of None \<Rightarrow> Some (d, Inl (Errorf ''spec required'')) | Some s \<Rightarrow> Some (answer_of ReplySandbox (Create svc d s)))
      else if a = ''start'' then Some (answer_of ReplySandbox (Start svc d ref))
      else if a = ''inspect'' then Some (answer_of ReplySandbox (d_Get svc d ref))
      else if a = ''ps'' then Some (answer_of ReplySandboxes (d_List svc d))
      else if a = ''stop'' then map_option nil_of (h_Stop svc env d ref (Request_Timeout q))
      else if a = ''restart'' then restart svc env d q
      else if a = ''rm'' then Some (nil_of (Remove svc d ref (Request_Force q)))
      else if a = ''wait'' then map_option (\<lambda>r. answer_of ReplyExit (he_later env d, r)) (h_Wait env 0)
      else if a = ''kill'' then Some (signal_guest svc d q)
      else if a = ''logs'' then Some (read_logs svc env d q)
      else if a = ''pull'' then Some (answer_of ReplyImage (on_repo (\<lambda>r. Repo_PullImage (Svc_Repo svc) r (Request_Ref q) ''always'') d))
      else if a = ''images'' then Some (answer_of ReplyImages (d, Cat_ListImages cat (Daemon_repo d)))
      else if a = ''image-inspect'' then Some (answer_of ReplyImage (d, Cat_GetImage cat (Daemon_repo d) (Request_Ref q)))
      else if a = ''image-rm'' then Some (image_rm svc env d (Request_Ref q))
      else if a = ''base-validate'' then map_option (answer_of ReplyValidation) (ValidateBase svc env d (Request_Ref q))
      else if a = ''base-pull'' then Some (answer_of ReplyBase (on_repo (\<lambda>r. Repo_PullBase (Svc_Repo svc) r (Request_Ref q) ''always'') d))
      else if a = ''base-push'' then Some (nil_of (d, Cat_PushBase cat (Daemon_repo d) (Request_Ref q)))
      else if a = ''base-ls'' then Some (answer_of ReplyBases (d, Cat_ListBases cat (Daemon_repo d)))
      else if a = ''base-inspect'' then Some (answer_of ReplyBase (d, Repo_GetBase (Svc_Repo svc) (Daemon_repo d) (Request_Ref q)))
      else if a = ''base-rm'' then Some (base_rm svc env d (Request_Ref q))
      else if a = ''volume-ls'' then Some (answer_of ReplyVolumes (called d, Volumes (d_db svc d) (Daemon_Store d)))
      else if a = ''volume-inspect'' then Some (answer_of ReplyVolume (called d, Volume_get (d_db svc d) (Daemon_Store d) ref))
      else if a = ''volume-create'' then Some (volume_create svc d (Request_Volume q))
      else if a = ''volume-rm'' then Some (volume_rm svc d ref)
      else Some (d, Inl (Errorf (''UnsupportedFeature: operation '' @ go_quote a))))"

definition Call :: "('h, 'n, 'r) Services \<Rightarrow> ('h, 'n, 'r) Handler_env \<Rightarrow> ('h, 'n, 'r) Daemon \<Rightarrow> Request \<Rightarrow> ('h, 'n, 'r) outcome option" where
  "Call svc env d q =
     (case (if needs_auth q then he_auth env (Request_Data q) else None) of
        Some e \<Rightarrow> Some (d, Inl e)
      | None \<Rightarrow> dispatch svc env d q)"

section \<open>Sessions\<close>

text \<open>What a session does: upload, replay of a finished sandbox, an error, or a relay to the guest.\<close>

datatype session = SessionLoad | SessionAttach | SessionError error | SessionRelay Sandbox

definition Session :: "('h, 'n, 'r) Services \<Rightarrow> ('h, 'n, 'r) Daemon \<Rightarrow> (Sandbox \<Rightarrow> Request \<Rightarrow> error option) \<Rightarrow> Request \<Rightarrow> ('h, 'n, 'r) Daemon \<times> session" where
  "Session svc d connect q =
     (let a = Request_Action q in
      if a = ''image-load'' \<or> a = ''base-load'' then (d, SessionLoad)
      else
        (let (d1, got) = d_Get svc d (Request_ID q) in
         if a = ''attach'' \<and> (case got of Inl _ \<Rightarrow> True | Inr v \<Rightarrow> Sandbox_State v = ''exited'' \<or> Sandbox_State v = ''failed'') then (d1, SessionAttach)
         else case got of Inl e \<Rightarrow> (d1, SessionError e) | Inr v \<Rightarrow>
           if Sandbox_State v \<noteq> ''running'' \<and> Sandbox_State v \<noteq> ''stopping'' then (d1, SessionError (Errorf ''container not running''))
           else if a \<noteq> ''exec'' \<and> a \<noteq> ''attach'' \<and> a \<noteq> ''copy-in'' \<and> a \<noteq> ''copy-out'' then (d1, SessionError (Errorf ''unsupported session''))
           else case VM_Client (Svc_VM svc) (Daemon_vm d1) v of Some e \<Rightarrow> (d1, SessionError e) | None \<Rightarrow>
           (case connect v q of Some e \<Rightarrow> (d1, SessionError e) | None \<Rightarrow> (d1, SessionRelay v))))"

text \<open>The goroutine of \<open>load\<close> that feeds the uploaded frames into the pipe: the bytes it wrote, and the
  error that the reader gets after them (none at the end of the upload).\<close>

fun upload :: "error \<Rightarrow> Frame list \<Rightarrow> string \<times> error option" where
  "upload eof [] = ([], Some eof)"
| "upload eof (f # fs) =
     (if Frame_Type f = ''eof'' then ([], None)
      else if Frame_Type f \<noteq> ''data'' then ([], Some (Errorf ''invalid upload frame''))
      else (let (b, e) = upload eof fs in (Frame_Data f @ b, e)))"

record load_env =
  load_tmp :: "string result"
  load_extract :: "string \<Rightarrow> string \<times> error option \<Rightarrow> error option"
  load_layout :: "string \<Rightarrow> string result"
  load_signed :: "string \<Rightarrow> string result"
  load_parse :: "string \<Rightarrow> Signed result"
  load_import :: "string \<Rightarrow> Signed \<Rightarrow> string \<Rightarrow> string \<Rightarrow> string result"
  load_send :: "string \<Rightarrow> error option"

text \<open>\<open>load_layout\<close> loads and imports the image and gives its digest.\<close>

definition load :: "load_env \<Rightarrow> Request \<Rightarrow> error \<Rightarrow> Frame list \<Rightarrow> error option" where
  "load env q eof fs =
     (if Request_Ref q = [] then Some (Errorf ''image reference required'')
      else case load_tmp env of Inl e \<Rightarrow> Some e | Inr tmp \<Rightarrow>
      (case load_extract env tmp (upload eof fs) of Some e \<Rightarrow> Some e | None \<Rightarrow>
       if Request_Action q = ''image-load'' then
         (case load_layout env tmp of Inl e \<Rightarrow> Some e | Inr digest \<Rightarrow> load_send env digest)
       else
         (case load_signed env (path_Join [tmp, ''signed.json'']) of Inl e \<Rightarrow> Some e | Inr raw \<Rightarrow>
          (case load_parse env raw of Inl e \<Rightarrow> Some e | Inr sig \<Rightarrow>
           (case load_import env (Request_Ref q) sig (path_Join [tmp, ''kernel'']) (path_Join [tmp, ''rootfs.ext4'']) of
              Inl e \<Rightarrow> Some e | Inr digest \<Rightarrow> load_send env digest)))))"

section \<open>Types of the replies\<close>

text \<open>The reply that the client of each request decodes.\<close>

definition reply_ok :: "string \<Rightarrow> reply \<Rightarrow> bool" where
  "reply_ok a r =
     (case r of
        ReplyNil \<Rightarrow> a \<in> {''stop'', ''rm'', ''kill'', ''image-rm'', ''base-push'', ''base-rm'', ''volume-rm''}
      | ReplyVersion _ _ \<Rightarrow> a = ''version''
      | ReplyInfo _ _ _ _ \<Rightarrow> a = ''info''
      | ReplySandbox _ \<Rightarrow> a \<in> {''create'', ''start'', ''inspect'', ''restart''}
      | ReplySandboxes _ \<Rightarrow> a = ''ps''
      | ReplyExit _ \<Rightarrow> a = ''wait''
      | ReplyFrames _ \<Rightarrow> a = ''logs''
      | ReplyImage _ \<Rightarrow> a \<in> {''pull'', ''image-inspect''}
      | ReplyImages _ \<Rightarrow> a = ''images''
      | ReplyBase _ \<Rightarrow> a \<in> {''base-pull'', ''base-inspect''}
      | ReplyBases _ \<Rightarrow> a = ''base-ls''
      | ReplyValidation _ \<Rightarrow> a = ''base-validate''
      | ReplyVolume _ \<Rightarrow> a \<in> {''volume-inspect'', ''volume-create''}
      | ReplyVolumes _ \<Rightarrow> a = ''volume-ls'')"

lemma answer_of_Inr: "answer_of f out = (d, Inr r) \<Longrightarrow> \<exists>a. r = f a"
  by (auto simp: answer_of_def split: prod.splits sum.splits)

lemma nil_of_Inr: "nil_of out = (d, Inr r) \<Longrightarrow> r = ReplyNil"
  by (auto simp: nil_of_def split: prod.splits option.splits)

lemma signal_guest_Inr: "signal_guest svc d q = (d', Inr r) \<Longrightarrow> r = ReplyNil"
  by (auto simp: signal_guest_def split: prod.splits sum.splits option.splits if_splits)

lemma read_logs_Inr: "read_logs svc env d q = (d', Inr r) \<Longrightarrow> \<exists>fs. r = ReplyFrames fs"
  by (auto simp: read_logs_def split: prod.splits sum.splits if_splits)

lemma image_rm_Inr: "image_rm svc env d ref = (d', Inr r) \<Longrightarrow> r = ReplyNil"
  by (auto simp: image_rm_def split: prod.splits sum.splits option.splits dest: nil_of_Inr)

lemma base_rm_Inr: "base_rm svc env d ref = (d', Inr r) \<Longrightarrow> r = ReplyNil"
  by (auto simp: base_rm_def split: prod.splits sum.splits option.splits dest: nil_of_Inr)

lemma volume_create_Inr: "volume_create svc d vo = (d', Inr r) \<Longrightarrow> \<exists>v. r = ReplyVolume v"
  by (auto simp: volume_create_def Let_def split: prod.splits sum.splits option.splits if_splits)

lemma volume_rm_Inr: "volume_rm svc d ref = (d', Inr r) \<Longrightarrow> r = ReplyNil"
  by (auto simp: volume_rm_def split: prod.splits sum.splits option.splits if_splits dest: nil_of_Inr)

lemma restart_Inr: "restart svc env d q = Some (d', Inr r) \<Longrightarrow> \<exists>v. r = ReplySandbox v"
  by (auto simp: restart_def split: option.splits dest: answer_of_Inr)

lemmas reply_types = answer_of_Inr nil_of_Inr signal_guest_Inr read_logs_Inr image_rm_Inr base_rm_Inr volume_create_Inr volume_rm_Inr restart_Inr

lemma if_elim:
  assumes "(if P then x else y) = z"
  obtains P "x = z" | "y = z"
  using assms by (simp split: if_splits)

lemma dispatch_reply:
  assumes "dispatch svc env d q = Some (d', Inr r)"
  shows "reply_ok (Request_Action q) r"
  using assms unfolding dispatch_def Let_def
  by (elim if_elim) (auto simp: reply_ok_def split: option.splits dest!: reply_types)



section \<open>Removing what is not in use\<close>

lemma nil_of_repo: "nil_of (on_repo f d) = (d', Inr r) \<Longrightarrow> Daemon_Store d' = Daemon_Store d"
  by (auto simp: nil_of_def on_repo_def split: prod.splits option.splits)

lemma unused_all:
  assumes "store_inv (Daemon_Store d)" "d_List svc d0 = (d1, Inr all)" "Daemon_Store d0 = Daemon_Store d" "find P all = None"
  shows "Daemon_Store d1 = Daemon_Store d" "\<forall>u \<in> ran (sandbox_of (Daemon_Store d)). \<not> P u"
  using assms List_sandboxes_set [of "Daemon_Store d" "d_db svc d0" all]
  by (auto simp: d_List_def called_def find_None_iff)

lemma DeleteVolume_nil:
  assumes "store_inv (Daemon_Store d)" "nil_of (d_DeleteVolume svc d n) = (d', Inr r)"
  shows "sandbox_of (Daemon_Store d') = sandbox_of (Daemon_Store d)"
    "volume_of (Daemon_Store d') = (volume_of (Daemon_Store d))(n := None)"
proof -
  obtain st e where x: "DeleteVolume (d_db svc d) (Daemon_Store d) n = (st, e)" by (rule prod.exhaust)
  then have "e = None" "Daemon_Store d' = st" using assms(2) by (auto simp: nil_of_def d_DeleteVolume_def Let_def split: option.splits)
  with DeleteVolume_ok [OF assms(1)] x show "sandbox_of (Daemon_Store d') = sandbox_of (Daemon_Store d)"
    "volume_of (Daemon_Store d') = (volume_of (Daemon_Store d))(n := None)" by (auto simp: fun_eq_iff)
qed

lemma volume_rm_done:
  assumes "store_inv (Daemon_Store d)" "volume_rm svc d ref = (d', Inr r)"
  shows "volume_of (Daemon_Store d) ref \<noteq> None" "\<forall>u \<in> ran (sandbox_of (Daemon_Store d)). ref \<notin> set (mount_names (Sandbox_Spec u))"
    "sandbox_of (Daemon_Store d') = sandbox_of (Daemon_Store d)" "volume_of (Daemon_Store d') = (volume_of (Daemon_Store d))(ref := None)"
proof -
  from assms(2) obtain v d1 all ro where i: "Volume_get (d_db svc d) (Daemon_Store d) ref = Inr v" "d_List svc (called d) = (d1, Inr all)"
      "find (\<lambda>s. Volume_Name v \<in> set (mount_names (Sandbox_Spec s))) all = None"
      "nil_of (d_DeleteVolume svc (d1\<lparr>Daemon_repo := ro\<rparr>) (Volume_Name v)) = (d', Inr r)"
    by (auto simp: volume_rm_def on_repo_def split: sum.splits prod.splits option.splits if_splits)
  have v: "volume_of (Daemon_Store d) ref = Some v" by (rule Volume_get_of [OF i(1)])
  then have n: "Volume_Name v = ref" using assms(1) by (auto simp: volume_of_def store_inv_def find_Some_iff)
  have c: "Daemon_Store (called d) = Daemon_Store d" by (simp add: called_def)
  note u = unused_all [OF assms(1) i(2) c i(3)]
  have st: "Daemon_Store (d1\<lparr>Daemon_repo := ro\<rparr>) = Daemon_Store d" using u(1) by simp
  then have "store_inv (Daemon_Store (d1\<lparr>Daemon_repo := ro\<rparr>))" using assms(1) by simp
  note del = DeleteVolume_nil [OF this i(4)]
  show "volume_of (Daemon_Store d) ref \<noteq> None" using v by simp
  show "\<forall>u \<in> ran (sandbox_of (Daemon_Store d)). ref \<notin> set (mount_names (Sandbox_Spec u))" using u(2) n by simp
  show "sandbox_of (Daemon_Store d') = sandbox_of (Daemon_Store d)"
    "volume_of (Daemon_Store d') = (volume_of (Daemon_Store d))(ref := None)" using del st n by simp_all
qed

text \<open>C1. Nothing in use is removed: when removing an image, a base or a volume succeeds, no record of
  the store refers to it; the records stay as they are, and of the volumes exactly the removed one is
  gone.\<close>

theorem removal_unreferenced:
  assumes "store_inv (Daemon_Store d)"
  shows "(image_rm svc env d ref = (d', Inr r) \<longrightarrow> Daemon_Store d' = Daemon_Store d \<and>
      (\<exists>img. Cat_GetImage (he_catalog env) (Daemon_repo d) ref = Inr img \<and>
        (\<forall>u \<in> ran (sandbox_of (Daemon_Store d)). Sandbox_ImageDigest u \<noteq> Image_Digest img))) \<and>
    (base_rm svc env d ref = (d', Inr r) \<longrightarrow> Daemon_Store d' = Daemon_Store d \<and>
      (\<exists>b. Repo_GetBase (Svc_Repo svc) (Daemon_repo d) ref = Inr b \<and>
        (\<forall>u \<in> ran (sandbox_of (Daemon_Store d)). Sandbox_BaseDigest u \<noteq> Bundle_Digest b))) \<and>
    (volume_rm svc d ref = (d', Inr r) \<longrightarrow>
      volume_of (Daemon_Store d) ref \<noteq> None \<and> (\<forall>u \<in> ran (sandbox_of (Daemon_Store d)). ref \<notin> set (mount_names (Sandbox_Spec u))) \<and>
      sandbox_of (Daemon_Store d') = sandbox_of (Daemon_Store d) \<and> volume_of (Daemon_Store d') = (volume_of (Daemon_Store d))(ref := None))"
proof (intro conjI impI)
  assume a: "image_rm svc env d ref = (d', Inr r)"
  then obtain img d1 all where i: "Cat_GetImage (he_catalog env) (Daemon_repo d) ref = Inr img" "d_List svc d = (d1, Inr all)"
      "find (\<lambda>s. Sandbox_ImageDigest s = Image_Digest img) all = None" "nil_of (on_repo (\<lambda>r. Cat_RemoveImage (he_catalog env) r ref) d1) = (d', Inr r)"
    by (auto simp: image_rm_def split: sum.splits prod.splits option.splits)
  note u = unused_all [OF assms i(2) refl i(3)]
  show "Daemon_Store d' = Daemon_Store d" using nil_of_repo [OF i(4)] u(1) by simp
  show "\<exists>img. Cat_GetImage (he_catalog env) (Daemon_repo d) ref = Inr img \<and> (\<forall>u \<in> ran (sandbox_of (Daemon_Store d)). Sandbox_ImageDigest u \<noteq> Image_Digest img)"
    using i(1) u(2) by blast
next
  assume a: "base_rm svc env d ref = (d', Inr r)"
  then obtain b d1 all where i: "Repo_GetBase (Svc_Repo svc) (Daemon_repo d) ref = Inr b" "d_List svc d = (d1, Inr all)"
      "find (\<lambda>s. Sandbox_BaseDigest s = Bundle_Digest b) all = None" "nil_of (on_repo (\<lambda>r. Cat_RemoveBase (he_catalog env) r ref) d1) = (d', Inr r)"
    by (auto simp: base_rm_def split: sum.splits prod.splits option.splits)
  note u = unused_all [OF assms i(2) refl i(3)]
  show "Daemon_Store d' = Daemon_Store d" using nil_of_repo [OF i(4)] u(1) by simp
  show "\<exists>b. Repo_GetBase (Svc_Repo svc) (Daemon_repo d) ref = Inr b \<and> (\<forall>u \<in> ran (sandbox_of (Daemon_Store d)). Sandbox_BaseDigest u \<noteq> Bundle_Digest b)"
    using i(1) u(2) by blast
next
  assume "volume_rm svc d ref = (d', Inr r)"
  from volume_rm_done [OF assms this]
  show "volume_of (Daemon_Store d) ref \<noteq> None" "\<forall>u \<in> ran (sandbox_of (Daemon_Store d)). ref \<notin> set (mount_names (Sandbox_Spec u))"
    "sandbox_of (Daemon_Store d') = sandbox_of (Daemon_Store d)" "volume_of (Daemon_Store d') = (volume_of (Daemon_Store d))(ref := None)" .
qed

theorem removal_unreferenced_witness:
  "\<forall>(svc :: (unit, unit, unit) Services) d. \<exists>d' r.
     volume_rm (svc\<lparr>Svc_db := \<lambda>_ _. None, Svc_Repo := (Svc_Repo svc)\<lparr>Repo_Remove := \<lambda>r p. (r, None)\<rparr>\<rparr>)
       (d\<lparr>Daemon_Store := empty_store\<lparr>Store_volumes := [\<lparr>vol_name = ''a'', vol_body = \<lparr>Volume_Name = ''a'', Volume_Size = 0, Volume_Created = 0\<rparr>\<rparr>]\<rparr>\<rparr>) ''a'' = (d', Inr r) \<and>
     volume_of (Daemon_Store d') ''a'' = None"
proof (intro allI)
  fix svc :: "(unit, unit, unit) Services" and d :: "(unit, unit, unit) Daemon"
  let ?s = "svc\<lparr>Svc_db := \<lambda>_ _. None, Svc_Repo := (Svc_Repo svc)\<lparr>Repo_Remove := \<lambda>r p. (r, None)\<rparr>\<rparr>"
  let ?d = "d\<lparr>Daemon_Store := empty_store\<lparr>Store_volumes := [\<lparr>vol_name = ''a'', vol_body = \<lparr>Volume_Name = ''a'', Volume_Size = 0, Volume_Created = 0\<rparr>\<rparr>]\<rparr>\<rparr>"
  have i: "store_inv (Daemon_Store ?d)" by (simp add: store_inv_def empty_store_def)
  have v: "ValidName ''a''" by code_simp
  obtain d' where r: "volume_rm ?s ?d ''a'' = (d', Inr ReplyNil)"
    using v by (simp add: volume_rm_def Volume_get_def d_db_def called_def d_List_def List_sandboxes_def empty_store_def VolumePath_def
      on_repo_def nil_of_def d_DeleteVolume_def DeleteVolume_def Let_def)
  with removal_unreferenced [OF i, of ?s _ "''a''" d' ReplyNil]
  show "\<exists>d' r. volume_rm ?s ?d ''a'' = (d', Inr r) \<and> volume_of (Daemon_Store d') ''a'' = None" by fastforce
qed

end
