(* ===== verification/System.thy ===== *)
theory System
  imports LifecycleInv Handler
begin

text \<open>
  The whole daemon as a transition system.  A state is the daemon with the two kinds of
  operation that are under way between locks: starts that passed admission (\<open>sys_boot\<close>, each holds
  the lock of its sandbox) and the creation that is preparing its disks (\<open>sys_create\<close>, it holds the lock
  on allocations).  A step is one handler, or one section of a handler between locks; its guards
  are the locks that the handler takes.  Machines may exit at any time, and the daemon may crash at
  any time, also between starting or killing a machine and recording it; it then recovers.

  A handler that looks a sandbox up again under its lock is taken to find the one that it
  locked, which holds unless the name of one sandbox is the ID of another.

  The invariant is proved for every backend that obeys \<open>vm_backend\<close>; its interpretation on the
  Firecracker backend is in \<open>Machine\<close>.
\<close>

section \<open>States and steps\<close>

record ('h, 'n, 'r) system =
  sys_d :: "('h, 'n, 'r) Daemon"
  sys_boot :: "string \<Rightarrow> (Sandbox \<times> Bundle) option"
  sys_create :: "Sandbox option"

inductive step :: "('h, 'n, 'r) Services \<Rightarrow> ('h, 'n, 'r) system \<Rightarrow> ('h, 'n, 'r) system \<Rightarrow> bool" for svc where
  create: "sys_create s = None \<Longrightarrow> Create_alloc svc (sys_d s) spec = (d', Inr v) \<Longrightarrow> step svc s (s\<lparr>sys_d := d', sys_create := Some v\<rparr>)"
| create_refused: "sys_create s = None \<Longrightarrow> Create_alloc svc (sys_d s) spec = (d', Inl e) \<Longrightarrow> step svc s (s\<lparr>sys_d := d'\<rparr>)"
| prepare: "sys_create s = Some v \<Longrightarrow> Create_prepare svc (sys_d s) v = (d', r) \<Longrightarrow> step svc s (s\<lparr>sys_d := d', sys_create := None\<rparr>)"
| admit: "sys_create s = None \<Longrightarrow> Get (d_db svc (sys_d s)) (Daemon_Store (sys_d s)) ref = Inr w \<Longrightarrow> sys_boot s (Sandbox_ID w) = None \<Longrightarrow>
    Start_admit svc (sys_d s) ref = (d', Inr (v, b)) \<Longrightarrow> Sandbox_ID v = Sandbox_ID w \<Longrightarrow>
    step svc s (s\<lparr>sys_d := d', sys_boot := (sys_boot s)(Sandbox_ID v \<mapsto> (v, b))\<rparr>)"
| admit_refused: "sys_create s = None \<Longrightarrow> Start_admit svc (sys_d s) ref = (d', Inl e) \<Longrightarrow> step svc s (s\<lparr>sys_d := d'\<rparr>)"
| boot: "sys_boot s i = Some (v, b) \<Longrightarrow> Start_boot svc (sys_d s) v b = (d', r) \<Longrightarrow>
    step svc s (s\<lparr>sys_d := d', sys_boot := (sys_boot s)(i := None)\<rparr>)"
| poll: "monitor_poll svc (sys_d s) v m = Some (d', m', nx) \<Longrightarrow> step svc s (s\<lparr>sys_d := d'\<rparr>)"
| monitored: "rec (sys_d s) (Sandbox_ID v) \<noteq> None \<Longrightarrow> sys_boot s (Sandbox_ID v) = None \<Longrightarrow>
    step svc s (s\<lparr>sys_d := monitor_end svc (sys_d s) v nx\<rparr>)"
| stop: "Get (d_db svc (sys_d s)) (Daemon_Store (sys_d s)) ref = Inr v \<Longrightarrow> sys_boot s (Sandbox_ID v) = None \<Longrightarrow>
    Stop_request svc (sys_d s) ref secs = (d', r) \<Longrightarrow> step svc s (s\<lparr>sys_d := d'\<rparr>)"
| stop_mark: "d_Update svc (sys_d s) i (Transition ''stopping'' []) = (d', e) \<Longrightarrow> step svc s (s\<lparr>sys_d := d'\<rparr>)"
| remove: "Get (d_db svc (sys_d s)) (Daemon_Store (sys_d s)) ref = Inr w \<Longrightarrow>
    Get (d_db svc (called (sys_d s))) (Daemon_Store (sys_d s)) (Sandbox_ID w) = Inr v \<Longrightarrow> Sandbox_ID v = Sandbox_ID w \<Longrightarrow>
    sys_boot s (Sandbox_ID v) = None \<Longrightarrow> Remove svc (sys_d s) ref force = (d', e) \<Longrightarrow> step svc s (s\<lparr>sys_d := d'\<rparr>)"
| guest_call: "on_vm (\<lambda>h. VM_Call (Svc_VM svc) h v q) (sys_d s) = (d', a) \<Longrightarrow> step svc s (s\<lparr>sys_d := d'\<rparr>)"
| volume_made: "sys_create s = None \<Longrightarrow> volume_create svc (sys_d s) vo = (d', r) \<Longrightarrow> step svc s (s\<lparr>sys_d := d'\<rparr>)"
| volume_dropped: "sys_create s = None \<Longrightarrow> volume_rm svc (sys_d s) ref = (d', r) \<Longrightarrow> step svc s (s\<lparr>sys_d := d'\<rparr>)"
| exited: "step svc s (s\<lparr>sys_d := (sys_d s)\<lparr>Daemon_vm := VM_Await (Svc_VM svc) (Daemon_vm (sys_d s)) v\<rparr>\<rparr>)"
| crash: "Daemon_Store d' = Daemon_Store (sys_d s) \<Longrightarrow> Daemon_vm d' = Daemon_vm (sys_d s) \<Longrightarrow>
    step svc s \<lparr>sys_d = d', sys_boot = Map.empty, sys_create = None\<rparr>"
| crash_started: "sys_boot s i = Some (v, b) \<Longrightarrow> VM_Start (Svc_VM svc) (Daemon_vm (sys_d s)) v b = (Daemon_vm d', r) \<Longrightarrow>
    Daemon_Store d' = Daemon_Store (sys_d s) \<Longrightarrow> step svc s \<lparr>sys_d = d', sys_boot = Map.empty, sys_create = None\<rparr>"
| crash_killed: "VM_Kill (Svc_VM svc) (Daemon_vm (sys_d s)) v = (Daemon_vm d', e) \<Longrightarrow>
    Daemon_Store d' = Daemon_Store (sys_d s) \<Longrightarrow> step svc s \<lparr>sys_d = d', sys_boot = Map.empty, sys_create = None\<rparr>"
| recover: "sys_boot s = Map.empty \<Longrightarrow> sys_create s = None \<Longrightarrow> Recover svc (sys_d s) = (d', e) \<Longrightarrow> step svc s (s\<lparr>sys_d := d'\<rparr>)"

text \<open>A daemon that starts for the first time.\<close>

definition fresh :: "('h, 'n, 'r) system \<Rightarrow> bool" where
  "fresh s \<longleftrightarrow> Daemon_Store (sys_d s) = empty_store \<and> sys_boot s = Map.empty \<and> sys_create s = None"

section \<open>Allocation\<close>

text \<open>Slots are distinct and in range, and host ports are not shared.\<close>

definition alloc_ok :: "('h, 'n, 'r) Daemon \<Rightarrow> bool" where
  "alloc_ok d \<longleftrightarrow> (\<forall>i u. rec d i = Some u \<longrightarrow> 1 \<le> Sandbox_Slot u \<and> Sandbox_Slot u \<le> 16000) \<and>
     (\<forall>i j u w. rec d i = Some u \<and> rec d j = Some w \<and> i \<noteq> j \<longrightarrow>
        Sandbox_Slot u \<noteq> Sandbox_Slot w \<and> set (host_ports (Sandbox_Spec u)) \<inter> set (host_ports (Sandbox_Spec w)) = {})"

text \<open>Every volume that a record mounts exists.\<close>

definition refs_ok :: "('h, 'n, 'r) Daemon \<Rightarrow> bool" where
  "refs_ok d \<longleftrightarrow> (\<forall>i u n. rec d i = Some u \<and> n \<in> set (mount_names (Sandbox_Spec u)) \<longrightarrow> volume_of (Daemon_Store d) n \<noteq> None)"

lemma core_le_alloc:
  assumes "core_le (Daemon_Store d) (Daemon_Store d')"
  shows "alloc_ok d \<Longrightarrow> alloc_ok d'" "refs_ok d \<Longrightarrow> refs_ok d'"
proof -
  have c: "\<exists>u. rec d i = Some u \<and> same_core u v" if "rec d' i = Some v" for i v
    using assms that by (auto simp: core_le_def rec_def)
  assume a: "alloc_ok d"
  show "alloc_ok d'"
    unfolding alloc_ok_def
  proof (intro conjI allI impI)
    fix i u assume "rec d' i = Some u"
    with c a show "1 \<le> Sandbox_Slot u" "Sandbox_Slot u \<le> 16000" by (fastforce simp: alloc_ok_def same_core_def)+
  next
    fix i j u w assume "rec d' i = Some u \<and> rec d' j = Some w \<and> i \<noteq> j"
    with c obtain u1 w1 where "rec d i = Some u1" "same_core u1 u" "rec d j = Some w1" "same_core w1 w" "i \<noteq> j" by blast
    with a show "Sandbox_Slot u \<noteq> Sandbox_Slot w" "set (host_ports (Sandbox_Spec u)) \<inter> set (host_ports (Sandbox_Spec w)) = {}"
      unfolding alloc_ok_def same_core_def by metis+
  qed
next
  have c: "\<exists>u. rec d i = Some u \<and> same_core u v" if "rec d' i = Some v" for i v
    using assms that by (auto simp: core_le_def rec_def)
  assume "refs_ok d"
  then show "refs_ok d'" unfolding refs_ok_def
    using c assms by (fastforce simp: core_le_def same_core_def)
qed

text \<open>A successful allocation adds one record, with an unused ID, name, slot and ports, whose volumes
  exist, and leaves the rest.\<close>

lemma with_name_spec [simp]:
  "Spec_Ports (with_name sid s) = Spec_Ports s" "Spec_Mounts (with_name sid s) = Spec_Mounts s"
  "host_ports (with_name sid s) = host_ports s" "mount_names (with_name sid s) = mount_names s"
  by (simp_all add: with_name_def host_ports_def mount_names_def)

lemma Create_alloc_ok:
  assumes "store_inv (Daemon_Store d)" "Create_alloc svc d spec = (d', Inr v)"
  shows "store_inv (Daemon_Store d')" "rec d (Sandbox_ID v) = None" "rec d' = (rec d)(Sandbox_ID v \<mapsto> v)"
    "volume_of (Daemon_Store d') = volume_of (Daemon_Store d)" "Daemon_vm d' = Daemon_vm d" "\<exists>n. Sandbox_ID v = Svc_ID svc n"
    "1 \<le> Sandbox_Slot v" "Sandbox_Slot v \<le> 16000"
    "\<And>i u. rec d i = Some u \<Longrightarrow> Sandbox_Slot u \<noteq> Sandbox_Slot v \<and> set (host_ports (Sandbox_Spec v)) \<inter> set (host_ports (Sandbox_Spec u)) = {}"
    "\<And>n. n \<in> set (mount_names (Sandbox_Spec v)) \<Longrightarrow> volume_of (Daemon_Store d) n \<noteq> None"
proof -
  let ?s = "with_base d spec"
  from assms(2) obtain all d2 where l: "List_sandboxes (d_db svc d) (Daemon_Store d) = Inr all" and cc: "create_conflict ?s all = None"
      and cv: "check_volumes svc (called d) (mount_names ?s) = (d2, None)"
      and slot: "first_free (map Sandbox_Slot all) 1 \<le> 16000"
      and v: "v = new_sandbox (Svc_ID svc (Daemon_calls d2)) (with_name (Svc_ID svc (Daemon_calls d2)) ?s) (first_free (map Sandbox_Slot all) 1) (d_now svc d2)"
      and cr: "d_Create svc d2 v = (d', None)"
    unfolding Create_alloc_def d_List_def Let_def
    by (auto split: option.splits sum.splits prod.splits if_splits)
  have fr: "Daemon_Store d2 = Daemon_Store d" "Daemon_vm d2 = Daemon_vm d"
    using check_volumes_frames [OF cv] by simp_all
  obtain st where st: "Create_row (d_db svc d2) (d_now svc d2) (Daemon_Store d) v = (st, None)" "d' = (called d2)\<lparr>Daemon_Store := st\<rparr>"
    using cr fr by (auto simp: d_Create_def split: prod.splits)
  note ok = Create_row_ok [OF assms(1) st(1)]
  show "store_inv (Daemon_Store d')" "rec d (Sandbox_ID v) = None" "rec d' = (rec d)(Sandbox_ID v \<mapsto> v)"
    "volume_of (Daemon_Store d') = volume_of (Daemon_Store d)" "Daemon_vm d' = Daemon_vm d"
    using ok(1-4) fr st(2) by (auto simp: rec_def fun_eq_iff)
  show "\<exists>n. Sandbox_ID v = Svc_ID svc n" by (auto simp: v new_sandbox_def)
  note ff = first_free_props [of "map Sandbox_Slot all" 1]
  have sl: "Sandbox_Slot v = first_free (map Sandbox_Slot all) 1" by (simp add: v new_sandbox_def)
  show "1 \<le> Sandbox_Slot v" "Sandbox_Slot v \<le> 16000" using ff slot sl by simp_all
  have sp: "host_ports (Sandbox_Spec v) = host_ports ?s" "mount_names (Sandbox_Spec v) = mount_names ?s" by (simp_all add: v new_sandbox_def)
  fix i u assume "rec d i = Some u"
  then have u: "u \<in> set all" using List_sandboxes_set [OF assms(1) l] by (auto simp: rec_def ran_def)
  then have "Sandbox_Slot u \<noteq> Sandbox_Slot v" using ff sl by (metis imageI set_map)
  with u show "Sandbox_Slot u \<noteq> Sandbox_Slot v \<and> set (host_ports (Sandbox_Spec v)) \<inter> set (host_ports (Sandbox_Spec u)) = {}"
    using cc sp unfolding create_conflict_None by auto
next
  fix n assume n: "n \<in> set (mount_names (Sandbox_Spec v))"
  from assms(2) obtain d2 where cv: "check_volumes svc (called d) (mount_names (with_base d spec)) = (d2, None)"
      and "mount_names (Sandbox_Spec v) = mount_names (with_base d spec)"
    unfolding Create_alloc_def d_List_def Let_def
    by (auto simp: new_sandbox_def split: option.splits sum.splits prod.splits if_splits)
  with check_volumes_exist [OF cv] n show "volume_of (Daemon_Store d) n \<noteq> None" by (simp add: called_def)
qed

section \<open>The invariant\<close>

context vm_backend
begin

definition active :: "('h, 'n, 'r) system \<Rightarrow> string \<Rightarrow> bool" where
  "active s i \<longleftrightarrow> live (Daemon_vm (sys_d s)) i \<or> sys_boot s i \<noteq> None"

definition ids_ok :: "('h, 'n, 'r) system \<Rightarrow> bool" where
  "ids_ok s \<longleftrightarrow> (\<forall>i u. rec (sys_d s) i = Some u \<longrightarrow> good i)"

text \<open>A sandbox that boots has no machine yet and holds its resources.\<close>

definition boots_ok :: "('h, 'n, 'r) system \<Rightarrow> bool" where
  "boots_ok s \<longleftrightarrow> (\<forall>i v b. sys_boot s i = Some (v, b) \<longrightarrow> Sandbox_ID v = i \<and> \<not> live (Daemon_vm (sys_d s)) i \<and>
     (\<exists>u. rec (sys_d s) i = Some u \<and> reservesVMResources u))"

text \<open>Active sandboxes share no volume.\<close>

definition exclusive :: "('h, 'n, 'r) system \<Rightarrow> bool" where
  "exclusive s \<longleftrightarrow> (\<forall>i j u w. active s i \<and> active s j \<and> i \<noteq> j \<and> rec (sys_d s) i = Some u \<and> rec (sys_d s) j = Some w \<longrightarrow>
     set (mount_names (Sandbox_Spec u)) \<inter> set (mount_names (Sandbox_Spec w)) = {})"

definition creating_ok :: "('h, 'n, 'r) system \<Rightarrow> bool" where
  "creating_ok s \<longleftrightarrow> (\<forall>v. sys_create s = Some v \<longrightarrow> \<not> active s (Sandbox_ID v) \<and> (\<forall>u. rec (sys_d s) (Sandbox_ID v) = Some u \<longrightarrow> same_core u v))"

definition sys_inv :: "('h, 'n, 'r) system \<Rightarrow> bool" where
  "sys_inv s \<longleftrightarrow> covered (sys_d s) \<and> ids_ok s \<and> alloc_ok (sys_d s) \<and> refs_ok (sys_d s) \<and> boots_ok s \<and> exclusive s \<and> creating_ok s"

text \<open>Steps after which records are as before but for their progress, and no sandbox is newly active.\<close>

lemma sys_inv_frame:
  assumes "sys_inv s" "covered (sys_d s')" "core_le (Daemon_Store (sys_d s)) (Daemon_Store (sys_d s'))"
    and act: "\<And>i. active s' i \<Longrightarrow> active s i"
    and held: "\<And>i. sys_boot s' i \<noteq> None \<Longrightarrow> sys_boot s' i = sys_boot s i \<and> \<not> live (Daemon_vm (sys_d s')) i \<and>
      (\<exists>u. rec (sys_d s') i = Some u \<and> reservesVMResources u)"
    and cr: "sys_create s' = None \<or> sys_create s' = sys_create s"
  shows "sys_inv s'"
proof -
  let ?d = "sys_d s" and ?d' = "sys_d s'"
  note I = assms(1) [unfolded sys_inv_def]
  have c: "\<exists>u. rec ?d i = Some u \<and> same_core u v" if "rec ?d' i = Some v" for i v
    using assms(3) that by (auto simp: core_le_def rec_def)
  have "ids_ok s'" using I c unfolding ids_ok_def by blast
  moreover have "boots_ok s'"
    unfolding boots_ok_def
  proof (intro allI impI)
    fix i v b assume b: "sys_boot s' i = Some (v, b)"
    then have h: "sys_boot s i = Some (v, b)" "\<not> live (Daemon_vm ?d') i" "\<exists>u. rec ?d' i = Some u \<and> reservesVMResources u"
      using held [of i] by simp_all
    then have "Sandbox_ID v = i" using I unfolding boots_ok_def by blast
    with h show "Sandbox_ID v = i \<and> \<not> live (Daemon_vm ?d') i \<and> (\<exists>u. rec ?d' i = Some u \<and> reservesVMResources u)" by simp
  qed
  moreover have "exclusive s'"
    unfolding exclusive_def
  proof (intro allI impI)
    fix i j u w assume a: "active s' i \<and> active s' j \<and> i \<noteq> j \<and> rec ?d' i = Some u \<and> rec ?d' j = Some w"
    obtain u1 w1 where "rec ?d i = Some u1" "same_core u1 u" "rec ?d j = Some w1" "same_core w1 w" using a c by blast
    then show "set (mount_names (Sandbox_Spec u)) \<inter> set (mount_names (Sandbox_Spec w)) = {}"
      using a act I unfolding exclusive_def same_core_def by metis
  qed
  moreover have "creating_ok s'"
    unfolding creating_ok_def
  proof (intro allI impI)
    fix v assume "sys_create s' = Some v"
    then have v: "sys_create s = Some v" using cr by auto
    have "same_core u v" if u: "rec ?d' (Sandbox_ID v) = Some u" for u
    proof -
      obtain u1 where "rec ?d (Sandbox_ID v) = Some u1" "same_core u1 u" using c [OF u] by blast
      moreover then have "same_core u1 v" using I v unfolding creating_ok_def by blast
      ultimately show ?thesis by (simp add: same_core_def)
    qed
    then show "\<not> active s' (Sandbox_ID v) \<and> (\<forall>u. rec ?d' (Sandbox_ID v) = Some u \<longrightarrow> same_core u v)"
      using act v I unfolding creating_ok_def by blast
  qed
  ultimately show ?thesis using assms(2) I core_le_alloc [OF assms(3)] unfolding sys_inv_def by blast
qed

lemma booting_held:
  assumes "sys_inv s" "sys_boot s i \<noteq> None"
  shows "\<not> live (Daemon_vm (sys_d s)) i" "\<exists>u. rec (sys_d s) i = Some u \<and> reservesVMResources u"
proof -
  obtain v b where "sys_boot s i = Some (v, b)" using assms(2) by auto
  then show "\<not> live (Daemon_vm (sys_d s)) i" "\<exists>u. rec (sys_d s) i = Some u \<and> reservesVMResources u"
    using assms(1) unfolding sys_inv_def boots_ok_def by blast+
qed

text \<open>A handler of one sandbox that is not booting.\<close>

lemma sys_inv_eff:
  assumes "sys_inv s" "eff False i (sys_d s) d'" "sys_boot s i = None"
  shows "sys_inv (s\<lparr>sys_d := d'\<rparr>)"
proof (rule sys_inv_frame [OF assms(1)])
  have E: "covered d'" "core_le (Daemon_Store (sys_d s)) (Daemon_Store d')" "\<And>j. live (Daemon_vm d') j \<Longrightarrow> live (Daemon_vm (sys_d s)) j"
      "\<And>j. j \<noteq> i \<Longrightarrow> rec d' j = rec (sys_d s) j"
    using assms(2) unfolding eff_def by auto
  show "covered (sys_d (s\<lparr>sys_d := d'\<rparr>))" "core_le (Daemon_Store (sys_d s)) (Daemon_Store (sys_d (s\<lparr>sys_d := d'\<rparr>)))" using E by simp_all
  show "active (s\<lparr>sys_d := d'\<rparr>) j \<Longrightarrow> active s j" for j using E(3) by (auto simp: active_def)
  fix j assume "sys_boot (s\<lparr>sys_d := d'\<rparr>) j \<noteq> None"
  then have j: "sys_boot s j \<noteq> None" by simp
  then have "j \<noteq> i" using assms(3) by auto
  with booting_held [OF assms(1) j] E(3,4) show "sys_boot (s\<lparr>sys_d := d'\<rparr>) j = sys_boot s j \<and> \<not> live (Daemon_vm (sys_d (s\<lparr>sys_d := d'\<rparr>))) j \<and>
      (\<exists>u. rec (sys_d (s\<lparr>sys_d := d'\<rparr>)) j = Some u \<and> reservesVMResources u)" by auto
qed simp

text \<open>A step that leaves the records alone; a crash that does.\<close>

lemma covered_same:
  assumes "covered d" "Daemon_Store d' = Daemon_Store d" "hinv (Daemon_vm d')" "\<And>i. live (Daemon_vm d') i \<Longrightarrow> live (Daemon_vm d) i"
  shows "covered d'" "core_le (Daemon_Store d) (Daemon_Store d')"
  using assms by (auto simp: covered_def rec_def intro: core_le_refl)

lemma sys_inv_same:
  assumes "sys_inv s" "Daemon_Store d' = Daemon_Store (sys_d s)" "hinv (Daemon_vm d')" "\<And>i. live (Daemon_vm d') i \<Longrightarrow> live (Daemon_vm (sys_d s)) i"
  shows "sys_inv (s\<lparr>sys_d := d'\<rparr>)"
proof (rule sys_inv_frame [OF assms(1)])
  have c: "covered (sys_d s)" using assms(1) by (simp add: sys_inv_def)
  show "covered (sys_d (s\<lparr>sys_d := d'\<rparr>))" "core_le (Daemon_Store (sys_d s)) (Daemon_Store (sys_d (s\<lparr>sys_d := d'\<rparr>)))"
    using covered_same [OF c assms(2-4)] by simp_all
  show "active (s\<lparr>sys_d := d'\<rparr>) j \<Longrightarrow> active s j" for j using assms(4) by (auto simp: active_def)
  fix j assume "sys_boot (s\<lparr>sys_d := d'\<rparr>) j \<noteq> None"
  then show "sys_boot (s\<lparr>sys_d := d'\<rparr>) j = sys_boot s j \<and> \<not> live (Daemon_vm (sys_d (s\<lparr>sys_d := d'\<rparr>))) j \<and>
      (\<exists>u. rec (sys_d (s\<lparr>sys_d := d'\<rparr>)) j = Some u \<and> reservesVMResources u)"
    using booting_held [OF assms(1), of j] assms(2,4) by (auto simp: rec_def)
qed simp

lemma sys_inv_crash:
  fixes s :: "('h, 'n, 'r) system" and d' :: "('h, 'n, 'r) Daemon"
  assumes "sys_inv s" "covered d'" "Daemon_Store d' = Daemon_Store (sys_d s)" "\<And>i. live (Daemon_vm d') i \<Longrightarrow> active s i"
  shows "sys_inv \<lparr>sys_d = d', sys_boot = Map.empty, sys_create = None\<rparr>"
proof (rule sys_inv_frame [OF assms(1)])
  have "store_inv (Daemon_Store (sys_d s))" using assms(1) by (simp add: sys_inv_def covered_def)
  then show "core_le (Daemon_Store (sys_d s)) (Daemon_Store (sys_d \<lparr>sys_d = d', sys_boot = Map.empty, sys_create = None\<rparr>))"
    using assms(3) by (simp add: core_le_refl)
  show "active \<lparr>sys_d = d', sys_boot = Map.empty, sys_create = None\<rparr> i \<Longrightarrow> active s i" for i
    using assms(4) [of i] by (simp add: active_def [of "\<lparr>sys_d = d', sys_boot = Map.empty, sys_create = None\<rparr>"])
qed (use assms(2) in simp_all)

section \<open>Preservation\<close>

lemma sys_inv_create:
  assumes "sys_inv s" "\<And>n. good (Svc_ID svc n)" "sys_create s = None" "Create_alloc svc (sys_d s) spec = (d', Inr v)"
  shows "sys_inv (s\<lparr>sys_d := d', sys_create := Some v\<rparr>)"
proof -
  let ?s = "s\<lparr>sys_d := d', sys_create := Some v\<rparr>" and ?d = "sys_d s" and ?i = "Sandbox_ID v"
  note I = assms(1) [unfolded sys_inv_def]
  have st: "store_inv (Daemon_Store ?d)" using I by (simp add: covered_def)
  note A = Create_alloc_ok [OF st assms(4)]
  have old: "rec d' j = rec ?d j" if "j \<noteq> ?i" for j using A(3) that by simp
  have idle: "\<not> active s ?i"
    using I A(2) unfolding active_def covered_def boots_ok_def by fastforce
  have act: "active ?s = active s" using A(5) by (simp add: active_def fun_eq_iff)
  have "covered d'" using I A(1,2,5) old unfolding covered_def by (metis option.simps(3))
  moreover have "ids_ok ?s"
    using I A(2,3,6) assms(2) unfolding ids_ok_def by (metis fun_upd_apply system.select_convs(1) system.surjective system.update_convs(1,3))
  moreover have "alloc_ok d'"
    unfolding alloc_ok_def
  proof (intro conjI allI impI)
    fix i u assume "rec d' i = Some u"
    then show "1 \<le> Sandbox_Slot u" "Sandbox_Slot u \<le> 16000"
      using I A(3,7,8) unfolding alloc_ok_def by (auto split: if_splits)
  next
    fix i j u w assume a: "rec d' i = Some u \<and> rec d' j = Some w \<and> i \<noteq> j"
    have "Sandbox_Slot u \<noteq> Sandbox_Slot w \<and> set (host_ports (Sandbox_Spec u)) \<inter> set (host_ports (Sandbox_Spec w)) = {}"
    proof (cases "i = ?i \<or> j = ?i")
      case True
      then show ?thesis using a A(3) A(9) [of j w] A(9) [of i u] by (auto split: if_splits)
    next
      case False
      then show ?thesis using a old I unfolding alloc_ok_def by metis
    qed
    then show "Sandbox_Slot u \<noteq> Sandbox_Slot w" "set (host_ports (Sandbox_Spec u)) \<inter> set (host_ports (Sandbox_Spec w)) = {}" by blast+
  qed
  moreover have "refs_ok d'"
    using I A(3,4,10) unfolding refs_ok_def by (auto split: if_splits)
  moreover have "boots_ok ?s"
    unfolding boots_ok_def
  proof (intro allI impI)
    fix i w b assume b: "sys_boot ?s i = Some (w, b)"
    then have "i \<noteq> ?i" using idle by (auto simp: active_def)
    then show "Sandbox_ID w = i \<and> \<not> live (Daemon_vm (sys_d ?s)) i \<and> (\<exists>u. rec (sys_d ?s) i = Some u \<and> reservesVMResources u)"
      using I b old A(5) unfolding boots_ok_def by simp
  qed
  moreover have "exclusive ?s"
    unfolding exclusive_def act
  proof (intro allI impI)
    fix i j u w assume a: "active s i \<and> active s j \<and> i \<noteq> j \<and> rec (sys_d ?s) i = Some u \<and> rec (sys_d ?s) j = Some w"
    then have "i \<noteq> ?i" "j \<noteq> ?i" using idle by auto
    then show "set (mount_names (Sandbox_Spec u)) \<inter> set (mount_names (Sandbox_Spec w)) = {}"
      using a old I unfolding exclusive_def by simp
  qed
  moreover have "creating_ok ?s" using idle act A(3) by (simp add: creating_ok_def)
  ultimately show ?thesis unfolding sys_inv_def by simp
qed

lemma sys_inv_admit:
  assumes "sys_inv s" "sys_create s = None" "Start_admit svc (sys_d s) ref = (d', Inr (v, b))" "sys_boot s (Sandbox_ID v) = None"
  shows "sys_inv (s\<lparr>sys_d := d', sys_boot := (sys_boot s)(Sandbox_ID v \<mapsto> (v, b))\<rparr>)"
proof -
  let ?s = "s\<lparr>sys_d := d', sys_boot := (sys_boot s)(Sandbox_ID v \<mapsto> (v, b))\<rparr>" and ?d = "sys_d s" and ?i = "Sandbox_ID v"
  have c: "covered ?d" using assms(1) by (simp add: sys_inv_def)
  note A = eff_Start_admit [OF c assms(3)]
  note I = sys_inv_eff [OF assms(1) A(1) assms(4), unfolded sys_inv_def]
  have cov: "covered d'" using I by simp
  have old: "rec d' j = rec ?d j" if "j \<noteq> ?i" for j using A(1) that unfolding eff_def by blast
  have act: "active ?s j \<longleftrightarrow> active s j \<or> j = ?i" for j using A(3) by (auto simp: active_def)
  have res: "reservesVMResources u" if "active s j" "rec ?d j = Some u" for j u
    using that assms(1) unfolding active_def sys_inv_def covered_def boots_ok_def by (metis option.inject option.exhaust prod.exhaust)
  obtain w where w: "rec d' ?i = Some w" "reservesVMResources w" "Sandbox_Spec w = Sandbox_Spec v" using A(4) by blast
  have "boots_ok ?s"
    unfolding boots_ok_def
  proof (intro allI impI)
    fix i x y assume b: "sys_boot ?s i = Some (x, y)"
    show "Sandbox_ID x = i \<and> \<not> live (Daemon_vm (sys_d ?s)) i \<and> (\<exists>u. rec (sys_d ?s) i = Some u \<and> reservesVMResources u)"
    proof (cases "i = ?i")
      case True
      then show ?thesis using b w A(2) by auto
    next
      case False
      then have "sys_boot (s\<lparr>sys_d := d'\<rparr>) i = Some (x, y)" using b by simp
      then show ?thesis using I unfolding boots_ok_def by simp
    qed
  qed
  moreover have "exclusive ?s"
    unfolding exclusive_def
  proof (intro allI impI)
    have new: "set (mount_names (Sandbox_Spec w)) \<inter> set (mount_names (Sandbox_Spec u)) = {}" if "active s j" "j \<noteq> ?i" "rec d' j = Some u" for j u
      using A(5) [of j u] that old res w(3) by simp
    fix i j x y assume a: "active ?s i \<and> active ?s j \<and> i \<noteq> j \<and> rec (sys_d ?s) i = Some x \<and> rec (sys_d ?s) j = Some y"
    show "set (mount_names (Sandbox_Spec x)) \<inter> set (mount_names (Sandbox_Spec y)) = {}"
    proof (cases "i = ?i \<or> j = ?i")
      case True
      then show ?thesis using a act new [of i x] new [of j y] w(1) by auto
    next
      case False
      then have "active (s\<lparr>sys_d := d'\<rparr>) i" "active (s\<lparr>sys_d := d'\<rparr>) j" using a act A(3) by (auto simp: active_def)
      moreover have "exclusive (s\<lparr>sys_d := d'\<rparr>)" using I by simp
      ultimately show ?thesis using a unfolding exclusive_def by simp metis
    qed
  qed
  moreover have "ids_ok ?s" "creating_ok ?s" "alloc_ok d'" "refs_ok d'" using I assms(2) by (auto simp: ids_ok_def creating_ok_def)
  ultimately show ?thesis using cov unfolding sys_inv_def by simp
qed

lemma booting_good:
  assumes "sys_inv s" "sys_boot s i = Some (v, b)"
  shows "Sandbox_ID v = i" "good i" "\<not> live (Daemon_vm (sys_d s)) i" "\<exists>u. rec (sys_d s) i = Some u \<and> reservesVMResources u"
proof -
  show h: "\<not> live (Daemon_vm (sys_d s)) i" "\<exists>u. rec (sys_d s) i = Some u \<and> reservesVMResources u"
    using booting_held [OF assms(1), of i] assms(2) by simp_all
  show "Sandbox_ID v = i" using assms unfolding sys_inv_def boots_ok_def by blast
  show "good i" using assms(1) h(2) unfolding sys_inv_def ids_ok_def by blast
qed

lemma sys_inv_boot:
  assumes "sys_inv s" "Svc_VM svc = vm" "sys_boot s i = Some (v, b)" "Start_boot svc (sys_d s) v b = (d', r)"
  shows "sys_inv (s\<lparr>sys_d := d', sys_boot := (sys_boot s)(i := None)\<rparr>)"
proof (rule sys_inv_frame [OF assms(1)])
  let ?s = "s\<lparr>sys_d := d', sys_boot := (sys_boot s)(i := None)\<rparr>"
  note B = booting_good [OF assms(1,3)]
  obtain u where u: "rec (sys_d s) (Sandbox_ID v) = Some u" "reservesVMResources u" using B by blast
  have c: "covered (sys_d s)" using assms(1) by (simp add: sys_inv_def)
  have "eff True (Sandbox_ID v) (sys_d s) d'"
    using B by (intro eff_Start_boot [OF assms(2) c _ u assms(4)]) simp_all
  then have E: "covered d'" "core_le (Daemon_Store (sys_d s)) (Daemon_Store d')" "\<And>j. live (Daemon_vm d') j \<Longrightarrow> live (Daemon_vm (sys_d s)) j \<or> j = i"
      "\<And>j. j \<noteq> i \<Longrightarrow> rec d' j = rec (sys_d s) j"
    using B(1) unfolding eff_def by auto
  show "covered (sys_d ?s)" "core_le (Daemon_Store (sys_d s)) (Daemon_Store (sys_d ?s))" using E by simp_all
  show "active ?s j \<Longrightarrow> active s j" for j using E(3) [of j] assms(3) by (auto simp: active_def split: if_splits)
  fix j assume "sys_boot ?s j \<noteq> None"
  then have j: "sys_boot s j \<noteq> None" "j \<noteq> i" by (auto split: if_splits)
  then show "sys_boot ?s j = sys_boot s j \<and> \<not> live (Daemon_vm (sys_d ?s)) j \<and> (\<exists>u. rec (sys_d ?s) j = Some u \<and> reservesVMResources u)"
    using booting_held [OF assms(1) j(1)] E(3) [of j] E(4) [OF j(2)] by auto
qed simp

lemma sys_inv_crash_started:
  fixes s :: "('h, 'n, 'r) system" and d' :: "('h, 'n, 'r) Daemon"
  assumes "sys_inv s" "Svc_VM svc = vm" "sys_boot s i = Some (v, b)" "VM_Start (Svc_VM svc) (Daemon_vm (sys_d s)) v b = (Daemon_vm d', r)"
    and "Daemon_Store d' = Daemon_Store (sys_d s)"
  shows "sys_inv \<lparr>sys_d = d', sys_boot = Map.empty, sys_create = None\<rparr>"
proof (rule sys_inv_crash [OF assms(1) _ assms(5)])
  note B = booting_good [OF assms(1,3)]
  have c: "covered (sys_d s)" using assms(1) by (simp add: sys_inv_def)
  then have "hinv (Daemon_vm (sys_d s))" by (simp add: covered_def)
  then have L: "hinv (Daemon_vm d')" "\<And>j. live (Daemon_vm d') j \<Longrightarrow> live (Daemon_vm (sys_d s)) j \<or> j = i"
    using start_law [of "Daemon_vm (sys_d s)" v b "Daemon_vm d'" r] B assms(2,4) by auto
  have "rec d' = rec (sys_d s)" using assms(5) by (simp add: rec_def fun_eq_iff)
  then show "covered d'" using c L B(4) assms(5) unfolding covered_def by metis
  show "live (Daemon_vm d') j \<Longrightarrow> active s j" for j using L(2) [of j] assms(3) by (auto simp: active_def)
qed

lemma sys_inv_stop_mark:
  assumes "sys_inv s" "d_Update svc (sys_d s) i (Transition ''stopping'' []) = (d', e)"
  shows "sys_inv (s\<lparr>sys_d := d'\<rparr>)"
proof (rule sys_inv_frame [OF assms(1)])
  have c: "covered (sys_d s)" using assms(1) by (simp add: sys_inv_def)
  then have st: "store_inv (Daemon_Store (sys_d s))" by (simp add: covered_def)
  have t: "same_core x y \<and> reservesVMResources y" if "Transition ''stopping'' [] x = Inr y" for x y
    using Transition_core [OF that] Transition_state [OF that] by (simp add: reservesVMResources_def)
  have "eff False i (sys_d s) d'" using t by (intro eff_Update [OF c assms(2)]) blast
  then have E: "covered d'" "core_le (Daemon_Store (sys_d s)) (Daemon_Store d')" "\<And>j. live (Daemon_vm d') j \<Longrightarrow> live (Daemon_vm (sys_d s)) j"
      "\<And>j. j \<noteq> i \<Longrightarrow> rec d' j = rec (sys_d s) j"
    unfolding eff_def by auto
  have own: "rec d' i = rec (sys_d s) i \<or> (\<exists>u. rec d' i = Some u \<and> reservesVMResources u)"
    using st assms(2) by (cases rule: d_Update_cases) (auto simp: rec_def dest: t)
  show "covered (sys_d (s\<lparr>sys_d := d'\<rparr>))" "core_le (Daemon_Store (sys_d s)) (Daemon_Store (sys_d (s\<lparr>sys_d := d'\<rparr>)))" using E by simp_all
  show "active (s\<lparr>sys_d := d'\<rparr>) j \<Longrightarrow> active s j" for j using E(3) by (auto simp: active_def)
  fix j assume "sys_boot (s\<lparr>sys_d := d'\<rparr>) j \<noteq> None"
  then show "sys_boot (s\<lparr>sys_d := d'\<rparr>) j = sys_boot s j \<and> \<not> live (Daemon_vm (sys_d (s\<lparr>sys_d := d'\<rparr>))) j \<and>
      (\<exists>u. rec (sys_d (s\<lparr>sys_d := d'\<rparr>)) j = Some u \<and> reservesVMResources u)"
    using booting_held [OF assms(1), of j] E(3) [of j] E(4) [of j] own by (cases "j = i") auto
qed simp

text \<open>Operations on volumes.\<close>

lemma sys_inv_volumes:
  assumes "sys_inv s" "store_inv (Daemon_Store d')" "sandbox_of (Daemon_Store d') = sandbox_of (Daemon_Store (sys_d s))"
    "Daemon_vm d' = Daemon_vm (sys_d s)" "refs_ok d'"
  shows "sys_inv (s\<lparr>sys_d := d'\<rparr>)"
proof -
  have r: "rec d' = rec (sys_d s)" using assms(3) by (simp add: rec_def fun_eq_iff)
  have a: "active (s\<lparr>sys_d := d'\<rparr>) = active s" using assms(4) by (simp add: active_def fun_eq_iff)
  show ?thesis
    using assms(1,2,4,5) r
    by (simp add: sys_inv_def covered_def ids_ok_def alloc_ok_def boots_ok_def exclusive_def creating_ok_def a)
qed

end

lemma monitor_poll_store:
  assumes "monitor_poll svc d v m = Some (d', m', nx)"
  shows "Daemon_Store d' = Daemon_Store d"
proof -
  obtain d1 c where 1: "current_generation svc d v = (d1, c)" by (rule prod.exhaust)
  then have "Daemon_Store d1 = Daemon_Store d" by (auto simp: current_generation_def d_Get_def split: sum.splits)
  then show ?thesis
    using assms unfolding monitor_poll_def 1 Let_def
    by (auto split: option.splits prod.splits sum.splits if_splits dest!: on_vmD)
qed

lemma volume_create_effect:
  assumes "store_inv (Daemon_Store d)" "volume_create svc d vo = (d', r)"
  shows "store_inv (Daemon_Store d')" "sandbox_of (Daemon_Store d') = sandbox_of (Daemon_Store d)" "Daemon_vm d' = Daemon_vm d"
    "\<And>n. volume_of (Daemon_Store d) n \<noteq> None \<Longrightarrow> volume_of (Daemon_Store d') n \<noteq> None"
proof -
  have put: "store_inv (Daemon_Store d2) \<and> sandbox_of (Daemon_Store d2) = sandbox_of (Daemon_Store d1) \<and> Daemon_vm d2 = Daemon_vm d1 \<and>
      (\<forall>n. volume_of (Daemon_Store d1) n \<noteq> None \<longrightarrow> volume_of (Daemon_Store d2) n \<noteq> None)"
    if p: "d_PutVolume svc d1 v = (d2, e)" and i: "store_inv (Daemon_Store d1)" for d1 d2 v e
  proof -
    obtain st where st: "PutVolume (d_db svc d1) (Daemon_Store d1) v = (st, e)" "d2 = (called d1)\<lparr>Daemon_Store := st\<rparr>"
      using p by (auto simp: d_PutVolume_def split: prod.splits)
    show ?thesis
    proof (cases e)
      case None
      with st PutVolume_ok [OF i] show ?thesis by auto
    next
      case (Some x)
      then have "st = Daemon_Store d1" using st(1) PutVolume_err [of "d_db svc d1" "Daemon_Store d1" v st x] by simp
      with st(2) i show ?thesis by simp
    qed
  qed
  have rp: "Daemon_Store (fst (on_repo f d)) = Daemon_Store d" "Daemon_vm (fst (on_repo f d)) = Daemon_vm d" for f :: "'c \<Rightarrow> 'c \<times> error option" and d
    by simp_all
  show "store_inv (Daemon_Store d')" "sandbox_of (Daemon_Store d') = sandbox_of (Daemon_Store d)" "Daemon_vm d' = Daemon_vm d"
    "\<And>n. volume_of (Daemon_Store d) n \<noteq> None \<Longrightarrow> volume_of (Daemon_Store d') n \<noteq> None"
    using assms by (auto simp: volume_create_def Let_def split: option.splits if_splits sum.splits prod.splits dest!: put on_repoD)
qed

lemma volume_rm_refused:
  assumes "volume_rm svc d ref = (d', Inl e)"
  shows "Daemon_Store d' = Daemon_Store d" "Daemon_vm d' = Daemon_vm d"
proof -
  have del: "Daemon_Store d2 = Daemon_Store d1 \<and> Daemon_vm d2 = Daemon_vm d1" if "nil_of (d_DeleteVolume svc d1 n) = (d2, Inl x)" for d1 d2 n x
    using that DeleteVolume_err by (auto simp: nil_of_def d_DeleteVolume_def split: prod.splits option.splits)
  from assms show "Daemon_Store d' = Daemon_Store d" "Daemon_vm d' = Daemon_vm d"
    by (auto simp: volume_rm_def d_List_def split: sum.splits option.splits prod.splits if_splits dest!: del on_repoD)
qed

lemma volume_rm_inv:
  assumes "store_inv (Daemon_Store d)" "volume_rm svc d ref = (d', Inr r)"
  shows "store_inv (Daemon_Store d')" "Daemon_vm d' = Daemon_vm d"
proof -
  have del: "(store_inv (Daemon_Store d1) \<longrightarrow> store_inv (Daemon_Store d2)) \<and> Daemon_vm d2 = Daemon_vm d1" if "nil_of (d_DeleteVolume svc d1 n) = (d2, Inr x)" for d1 d2 n x
    using that DeleteVolume_ok(1) by (auto simp: nil_of_def d_DeleteVolume_def split: prod.splits option.splits)
  from assms show "store_inv (Daemon_Store d')" "Daemon_vm d' = Daemon_vm d"
    by (auto simp: volume_rm_def d_List_def split: sum.splits option.splits prod.splits if_splits dest!: del on_repoD)
qed

context vm_backend
begin

lemma sys_inv_drop:
  assumes "sys_inv s"
  shows "sys_inv (s\<lparr>sys_create := None\<rparr>)"
proof -
  have "active (s\<lparr>sys_create := None\<rparr>) = active s" by (simp add: active_def fun_eq_iff)
  then show ?thesis using assms by (simp add: sys_inv_def ids_ok_def boots_ok_def exclusive_def creating_ok_def)
qed

lemma sys_inv_prepare:
  assumes "sys_inv s" "sys_create s = Some v" "Create_prepare svc (sys_d s) v = (d', r)"
  shows "sys_inv (s\<lparr>sys_d := d', sys_create := None\<rparr>)"
proof -
  have c: "covered (sys_d s)" and "creating_ok s" using assms(1) by (simp_all add: sys_inv_def)
  then have v: "\<not> live (Daemon_vm (sys_d s)) (Sandbox_ID v)" "sys_boot s (Sandbox_ID v) = None"
      "\<And>u. rec (sys_d s) (Sandbox_ID v) = Some u \<Longrightarrow> same_core u v"
    using assms(2) unfolding creating_ok_def active_def by blast+
  from sys_inv_drop [OF sys_inv_eff [OF assms(1) eff_Create_prepare [OF c v(1,3) assms(3)] v(2)]] show ?thesis by simp
qed

lemma sys_inv_volume_made:
  assumes "sys_inv s" "volume_create svc (sys_d s) vo = (d', r)"
  shows "sys_inv (s\<lparr>sys_d := d'\<rparr>)"
proof -
  have st: "store_inv (Daemon_Store (sys_d s))" and rf: "refs_ok (sys_d s)" using assms(1) by (simp_all add: sys_inv_def covered_def)
  note E = volume_create_effect [OF st assms(2)]
  have "refs_ok d'" using rf E(2,4) unfolding refs_ok_def rec_def by metis
  from sys_inv_volumes [OF assms(1) E(1-3) this] show ?thesis .
qed

lemma sys_inv_volume_dropped:
  assumes "sys_inv s" "volume_rm svc (sys_d s) ref = (d', r)"
  shows "sys_inv (s\<lparr>sys_d := d'\<rparr>)"
proof -
  have st: "store_inv (Daemon_Store (sys_d s))" and rf: "refs_ok (sys_d s)" using assms(1) by (simp_all add: sys_inv_def covered_def)
  show ?thesis
  proof (cases r)
    case (Inl e)
    note E = volume_rm_refused [OF assms(2) [unfolded Inl]]
    have "refs_ok d'" using rf E by (simp add: refs_ok_def rec_def)
    with E st show ?thesis by (intro sys_inv_volumes [OF assms(1)]) simp_all
  next
    case (Inr x)
    note D = volume_rm_done [OF st assms(2) [unfolded Inr]] and E = volume_rm_inv [OF st assms(2) [unfolded Inr]]
    have "refs_ok d'"
      unfolding refs_ok_def
    proof (intro allI impI)
      fix i u n assume a: "rec d' i = Some u \<and> n \<in> set (mount_names (Sandbox_Spec u))"
      then have u: "rec (sys_d s) i = Some u" using D(3) by (simp add: rec_def)
      then have "n \<noteq> ref" using a D(2) by (auto simp: rec_def ran_def)
      then show "volume_of (Daemon_Store d') n \<noteq> None" using a u rf D(4) unfolding refs_ok_def by (metis fun_upd_other)
    qed
    from sys_inv_volumes [OF assms(1) E(1) D(3) E(2) this] show ?thesis .
  qed
qed

lemma sys_inv_recover:
  assumes "sys_inv s" "Svc_VM svc = vm" "sys_boot s = Map.empty" "Recover svc (sys_d s) = (d', e)"
  shows "sys_inv (s\<lparr>sys_d := d'\<rparr>)"
proof (rule sys_inv_frame [OF assms(1)])
  have c: "covered (sys_d s)" using assms(1) by (simp add: sys_inv_def)
  have "shrinks (sys_d s) d'"
    using assms(1) by (intro Recover_shrinks [OF assms(2) c assms(4)]) (simp add: sys_inv_def ids_ok_def)
  then show "covered (sys_d (s\<lparr>sys_d := d'\<rparr>))" "core_le (Daemon_Store (sys_d s)) (Daemon_Store (sys_d (s\<lparr>sys_d := d'\<rparr>)))"
    "active (s\<lparr>sys_d := d'\<rparr>) i \<Longrightarrow> active s i" for i
    by (auto simp: shrinks_def active_def)
qed (use assms(3) in simp_all)

lemma Create_refused:
  assumes "Create_alloc svc d spec = (d', Inl e)"
  shows "Daemon_Store d' = Daemon_Store d" "Daemon_vm d' = Daemon_vm d"
proof -
  have cr: "Daemon_Store d2 = Daemon_Store d1 \<and> Daemon_vm d2 = Daemon_vm d1" if "d_Create svc d1 v = (d2, Some x)" for d1 d2 v x
    using that Create_row_err by (auto simp: d_Create_def split: prod.splits)
  from assms show "Daemon_Store d' = Daemon_Store d" "Daemon_vm d' = Daemon_vm d"
    by (auto simp: Create_alloc_def d_List_def Let_def split: option.splits sum.splits prod.splits if_splits dest!: cr check_volumes_frames)
qed

lemma step_inv:
  assumes "step svc s s'" "sys_inv s" "Svc_VM svc = vm" "\<And>n. good (Svc_ID svc n)"
  shows "sys_inv s'"
proof -
  have c: "covered (sys_d s)" and h: "hinv (Daemon_vm (sys_d s))" and st: "store_inv (Daemon_Store (sys_d s))"
    and g: "\<And>i u. rec (sys_d s) i = Some u \<Longrightarrow> good i"
    using assms(2) by (auto simp: sys_inv_def covered_def ids_ok_def)
  have gg: "good (Sandbox_ID v)" if "Get db (Daemon_Store (sys_d s)) ref = Inr v" for db ref v
    using g [of "Sandbox_ID v" v] Get_member [OF st that] by (simp add: rec_def)
  from assms(1) show ?thesis
  proof cases
    case (create spec d' v)
    then show ?thesis using sys_inv_create [OF assms(2,4)] by blast
  next
    case (create_refused spec d' e)
    note r = Create_refused [OF create_refused(3)]
    show ?thesis unfolding create_refused(1) using r h by (intro sys_inv_same [OF assms(2)]) simp_all
  next
    case (prepare v d' r)
    then show ?thesis using sys_inv_prepare [OF assms(2)] by blast
  next
    case (admit ref w d' v b)
    show ?thesis unfolding admit(1) using admit by (intro sys_inv_admit [OF assms(2)]) simp_all
  next
    case (admit_refused ref d' e)
    note r = eff_Start_refused [OF c admit_refused(3)]
    show ?thesis unfolding admit_refused(1) using r h by (intro sys_inv_same [OF assms(2)]) simp_all
  next
    case (boot i v b d' r)
    then show ?thesis using sys_inv_boot [OF assms(2,3)] by blast
  next
    case (poll v m d' m' nx)
    have E: "eff False (Sandbox_ID v) (sys_d s) d'" by (rule eff_monitor_poll [OF assms(3) c poll(2)])
    have same: "Daemon_Store d' = Daemon_Store (sys_d s)" by (rule monitor_poll_store [OF poll(2)])
    show ?thesis unfolding poll(1) using E same by (intro sys_inv_same [OF assms(2)]) (auto simp: eff_def covered_def)
  next
    case (monitored v nx)
    then show ?thesis using sys_inv_eff [OF assms(2) eff_monitor_end [OF assms(3) c]] g by blast
  next
    case (stop ref v secs d' r)
    then show ?thesis using sys_inv_eff [OF assms(2) eff_Stop_request [OF assms(3) c]] gg by blast
  next
    case (stop_mark i d' e)
    then show ?thesis using sys_inv_stop_mark [OF assms(2)] by blast
  next
    case (remove ref w v force d' e)
    then show ?thesis using sys_inv_eff [OF assms(2)] eff_Remove_at [OF assms(3) c] gg by blast
  next
    case (guest_call v q d' a)
    have "eff False v0 (sys_d s) d'" for v0 by (rule eff_on_vm_call [OF assms(3) c guest_call(2)])
    then show ?thesis
      unfolding guest_call(1) using on_vmD [OF guest_call(2)] by (intro sys_inv_same [OF assms(2)]) (auto simp: eff_def covered_def)
  next
    case (volume_made vo d' r)
    then show ?thesis using sys_inv_volume_made [OF assms(2)] by blast
  next
    case (volume_dropped ref d' r)
    then show ?thesis using sys_inv_volume_dropped [OF assms(2)] by blast
  next
    case (exited v)
    show ?thesis
      unfolding exited(1) using await_law [OF h, of v] assms(3) by (intro sys_inv_same [OF assms(2)]) auto
  next
    case (crash d')
    have "covered d'" using covered_same [OF c crash(2)] h crash(3) by simp
    then show ?thesis unfolding crash(1) using crash by (intro sys_inv_crash [OF assms(2)]) (auto simp: active_def)
  next
    case (crash_started i v b d' r)
    then show ?thesis using sys_inv_crash_started [OF assms(2,3)] by blast
  next
    case (crash_killed v d' e)
    have k: "hinv (Daemon_vm d')" "\<And>i. live (Daemon_vm d') i \<Longrightarrow> live (Daemon_vm (sys_d s)) i"
      using kill_law [OF h, of v] crash_killed(2) assms(3) by auto
    have "covered d'" using covered_same [OF c crash_killed(3) k] by simp
    then show ?thesis unfolding crash_killed(1) using k crash_killed by (intro sys_inv_crash [OF assms(2)]) (auto simp: active_def)
  next
    case (recover d' e)
    then show ?thesis using sys_inv_recover [OF assms(2,3)] by blast
  qed
qed

lemma fresh_inv:
  assumes "fresh s" "hinv (Daemon_vm (sys_d s))" "\<And>i. \<not> live (Daemon_vm (sys_d s)) i"
  shows "sys_inv s"
proof -
  have "rec (sys_d s) i = None" for i using assms(1) by (simp add: fresh_def rec_def sandbox_of_def empty_store_def)
  moreover have "store_inv (Daemon_Store (sys_d s))" using assms(1) by (simp add: fresh_def store_inv_def empty_store_def)
  ultimately show ?thesis
    using assms unfolding sys_inv_def covered_def ids_ok_def alloc_ok_def refs_ok_def boots_ok_def exclusive_def creating_ok_def active_def
    by (simp add: fresh_def)
qed

text \<open>What holds in every state that the system reaches.\<close>

lemma reach_inv:
  assumes "(step svc)\<^sup>*\<^sup>* s0 s" "fresh s0" "hinv (Daemon_vm (sys_d s0))" "\<And>i. \<not> live (Daemon_vm (sys_d s0)) i"
    and "Svc_VM svc = vm" "\<And>n. good (Svc_ID svc n)"
  shows "sys_inv s"
  using assms(1)
proof (induction rule: rtranclp_induct)
  case base
  show ?case by (rule fresh_inv [OF assms(2-4)])
next
  case (step y z)
  then show ?case using step_inv assms(5,6) by blast
qed

lemma reach_removed:
  assumes "sys_inv s" "Svc_VM svc = vm" "Remove svc (sys_d s) ref force = (d', e)"
    and "Get (d_db svc (sys_d s)) (Daemon_Store (sys_d s)) ref = Inr w"
    and "Get (d_db svc (called (sys_d s))) (Daemon_Store (sys_d s)) (Sandbox_ID w) = Inr v"
  shows "(\<forall>i. i \<noteq> Sandbox_ID v \<longrightarrow> rec d' i = rec (sys_d s) i) \<and>
    (\<forall>i. live (Daemon_vm d') i \<longrightarrow> live (Daemon_vm (sys_d s)) i) \<and>
    (e = None \<longrightarrow> rec d' (Sandbox_ID v) = None \<and> \<not> live (Daemon_vm d') (Sandbox_ID v))"
proof -
  have c: "covered (sys_d s)" "store_inv (Daemon_Store (sys_d s))" and g: "ids_ok s" using assms(1) by (simp_all add: sys_inv_def covered_def)
  have "rec (sys_d s) (Sandbox_ID v) = Some v" using Get_member [OF c(2) assms(5)] by (simp add: rec_def)
  then have "good (Sandbox_ID v)" using g unfolding ids_ok_def by blast
  from eff_Remove_at [OF assms(2) c(1) assms(3-5) this, of False] show ?thesis unfolding eff_def by blast
qed

lemma reach_alloc: "sys_inv s \<Longrightarrow> alloc_ok (sys_d s) \<and> refs_ok (sys_d s)"
  by (simp add: sys_inv_def)

lemma reach_recorded:
  "sys_inv s \<Longrightarrow> live (Daemon_vm (sys_d s)) i \<Longrightarrow>
   \<exists>u. rec (sys_d s) i = Some u \<and> reservesVMResources u \<and> 1 \<le> Sandbox_Slot u \<and> Sandbox_Slot u \<le> 16000"
  unfolding sys_inv_def covered_def alloc_ok_def by blast

lemma reach_isolated:
  assumes "sys_inv s" "live (Daemon_vm (sys_d s)) i" "live (Daemon_vm (sys_d s)) j" "i \<noteq> j"
  shows "\<exists>u w. rec (sys_d s) i = Some u \<and> rec (sys_d s) j = Some w \<and> reservesVMResources u \<and> reservesVMResources w \<and>
    Sandbox_Slot u \<noteq> Sandbox_Slot w \<and> set (host_ports (Sandbox_Spec u)) \<inter> set (host_ports (Sandbox_Spec w)) = {} \<and>
    set (mount_names (Sandbox_Spec u)) \<inter> set (mount_names (Sandbox_Spec w)) = {}"
proof -
  obtain u w where u: "rec (sys_d s) i = Some u" "reservesVMResources u" "rec (sys_d s) j = Some w" "reservesVMResources w"
    using assms(1-3) unfolding sys_inv_def covered_def by blast
  have "active s i" "active s j" using assms(2,3) by (simp_all add: active_def)
  then have "set (mount_names (Sandbox_Spec u)) \<inter> set (mount_names (Sandbox_Spec w)) = {}"
    using assms(1,4) u unfolding sys_inv_def exclusive_def by blast
  moreover have "Sandbox_Slot u \<noteq> Sandbox_Slot w \<and> set (host_ports (Sandbox_Spec u)) \<inter> set (host_ports (Sandbox_Spec w)) = {}"
    using assms(1,4) u unfolding sys_inv_def alloc_ok_def by blast
  ultimately show ?thesis using u by blast
qed

end

end
