(* ===== verification/Machine.thy ===== *)
theory Machine
  imports System VmStart
begin

text \<open>
  The Firecracker backend of the daemon (\<open>Manager\<close> of src/internal/firecracker/vm.go) over a host: the
  operations of \<open>VmStart\<close> and \<open>VmIdentity\<close> as a \<open>Backend\<close>.  Its state is the host, the jails and a
  clock; \<open>fc_env\<close> has everything that is decided outside of the program, by the clock: how the host
  changes from one observation to the next, which system calls fail, what the guest answers, and
  what the jailer does.

  \<open>jailer_ok\<close> and \<open>env_ok\<close> say what the program relies on.  The jailer puts its process into the control
  group of the sandbox and writes its pid file, and touches nothing of other sandboxes; otherwise
  processes only leave such groups, and pid files stay.  Under them the backend satisfies
  \<open>vm_backend\<close>, so that the invariant of \<open>System\<close> holds of the daemon on Firecracker.
\<close>

section \<open>The backend\<close>

record machine =
  mc_host :: vmhost
  mc_jails :: "string \<Rightarrow> jail"
  mc_tick :: nat

record fc_env =
  fe_start :: "nat \<Rightarrow> vmhost start_env"
  fe_time :: "nat \<Rightarrow> vmhost \<Rightarrow> vmhost"
  fe_kill :: "nat \<Rightarrow> vmhost \<Rightarrow> Sandbox \<Rightarrow> kill_env"
  fe_rm :: "nat \<Rightarrow> string \<Rightarrow> error option"
  fe_polls :: "nat \<Rightarrow> nat"
  fe_client :: "nat \<Rightarrow> Sandbox \<Rightarrow> unit result"
  fe_status :: "nat \<Rightarrow> Sandbox \<Rightarrow> GuestStatus result"
  fe_done :: "nat \<Rightarrow> bool"
  fe_call :: "nat \<Rightarrow> Sandbox \<Rightarrow> Request \<Rightarrow> answer result"

text \<open>The host after \<open>k\<close> further changes.\<close>

primrec run :: "fc_env \<Rightarrow> nat \<Rightarrow> vmhost \<Rightarrow> nat \<Rightarrow> vmhost" where
  "run env t h 0 = h"
| "run env t h (Suc k) = fe_time env (t + k) (run env t h k)"

definition advance :: "fc_env \<Rightarrow> nat \<Rightarrow> machine \<Rightarrow> machine" where
  "advance env k mc = mc\<lparr>mc_host := run env (mc_tick mc) (mc_host mc) k, mc_tick := Suc (mc_tick mc + k)\<rparr>"

text \<open>The poll at which the loop of \<open>Kill\<close> ends.\<close>

partial_function (option) kill_wait_at :: "(nat \<Rightarrow> reader) \<Rightarrow> (nat \<Rightarrow> error option) \<Rightarrow> Sandbox \<Rightarrow> nat \<Rightarrow> nat option" where
  "kill_wait_at obs ctx s k =
     (if Alive (obs k) s then (case ctx k of Some e \<Rightarrow> Some k | None \<Rightarrow> kill_wait_at obs ctx s (Suc k)) else Some k)"

definition kill_end :: "Manager \<Rightarrow> (nat \<Rightarrow> reader) \<Rightarrow> kill_env \<Rightarrow> Sandbox \<Rightarrow> nat" where
  "kill_end m obs env s =
     (case kill_wait_at (\<lambda>k. obs (3 + k)) (ke_ctx env) (fst (Discover m (obs 0) s)) 0 of Some k \<Rightarrow> 3 + k | None \<Rightarrow> 3)"

definition fc_Kill :: "Manager \<Rightarrow> fc_env \<Rightarrow> machine \<Rightarrow> Sandbox \<Rightarrow> machine \<times> error option" where
  "fc_Kill m env mc v =
     (let obs = (\<lambda>k. read_file (run env (mc_tick mc) (mc_host mc) k)); ke = fe_kill env (mc_tick mc) (mc_host mc) v in
      (advance env (kill_end m obs ke v) mc,
       case Kill m obs ke v of Some (sig, e) \<Rightarrow> e | None \<Rightarrow> Some (Errorf ''kill does not return'')))"

definition fc_Start :: "Manager \<Rightarrow> fc_env \<Rightarrow> machine \<Rightarrow> Sandbox \<Rightarrow> Bundle \<Rightarrow> machine \<times> (int \<times> string) result" where
  "fc_Start m env mc v b =
     (let se = (fe_start env (mc_tick mc))\<lparr>start_read := read_file\<rparr>;
          ((h, j), r) = Start_vm m se (mc_host mc) (mc_jails mc (Sandbox_ID v)) v b
      in (mc\<lparr>mc_host := h, mc_jails := (mc_jails mc)(Sandbox_ID v := j), mc_tick := Suc (mc_tick mc)\<rparr>, r))"

definition delete_below :: "string list \<Rightarrow> vmhost \<Rightarrow> vmhost" where
  "delete_below ds h = h\<lparr>vh_files := (\<lambda>p. if list_ex (\<lambda>d. below d p) ds then None else vh_files h p)\<rparr>"

definition fc_Remove :: "Manager \<Rightarrow> fc_env \<Rightarrow> machine \<Rightarrow> Sandbox \<Rightarrow> machine \<times> error option" where
  "fc_Remove m env mc v =
     (let (ds, e) = Remove_vm m (read_file (mc_host mc)) (fe_rm env (mc_tick mc)) v
      in (mc\<lparr>mc_host := delete_below ds (mc_host mc), mc_tick := Suc (mc_tick mc)\<rparr>, e))"

definition fc_Ready :: "fc_env \<Rightarrow> machine \<Rightarrow> Sandbox \<Rightarrow> machine \<times> error option" where
  "fc_Ready env mc v =
     (let t = mc_tick mc in
      (advance env (fe_polls env t) mc,
       case Ready (fe_client env t v) (\<lambda>k. fe_status env (t + k) v) (\<lambda>k. read_file (run env t (mc_host mc) k)) (\<lambda>k. fe_done env (t + k)) v of
         Some e \<Rightarrow> e | None \<Rightarrow> Some (Errorf ''ready does not return'')))"

definition fc_backend :: "Manager \<Rightarrow> fc_env \<Rightarrow> machine Backend" where
  "fc_backend m env =
     \<lparr>VM_Check = (\<lambda>mc. Check m (start_check (fe_start env (mc_tick mc)))),
      VM_Start = fc_Start m env,
      VM_Ready = fc_Ready env,
      VM_Client = (\<lambda>mc v. case fe_client env (mc_tick mc) v of Inl e \<Rightarrow> Some e | Inr _ \<Rightarrow> None),
      VM_Kill = fc_Kill m env,
      VM_Remove = fc_Remove m env,
      VM_Call = (\<lambda>mc v q. (advance env (fe_polls env (mc_tick mc)) mc, fe_call env (mc_tick mc) v q)),
      VM_Alive = (\<lambda>mc v. Alive (read_file (mc_host mc)) v),
      VM_Await = (\<lambda>mc v. advance env (fe_polls env (mc_tick mc)) mc)\<rparr>"

section \<open>What the backend relies on\<close>

definition vm_live :: "machine \<Rightarrow> string \<Rightarrow> bool" where
  "vm_live mc i \<longleftrightarrow> group_pids (mc_host mc) i \<noteq> {}"

text \<open>The process of each group is the one of the pid file of its sandbox.\<close>

definition recorded :: "Manager \<Rightarrow> vmhost \<Rightarrow> bool" where
  "recorded m h \<longleftrightarrow> host_ok h \<and> (\<forall>i. \<forall>pid \<in> group_pids h i. plain_elem i \<and> 1 < pid \<and> pid_record m i h = Inr pid)"

text \<open>An absolute root outside of \<open>/sys\<close>, and a named program.\<close>

definition manager_ok :: "Manager \<Rightarrow> bool" where
  "manager_ok m \<longleftrightarrow> processRoot m = ''/proc'' \<and> IsAbs (Manager_Root m) \<and> plain_elem (Base (Manager_Firecracker m)) \<and>
     \<not> prefix [''sys''] (clean_elems (Manager_Root m))"

text \<open>Changes of the host that let no process enter a group and no pid file change.\<close>

definition settles :: "Manager \<Rightarrow> vmhost \<Rightarrow> vmhost \<Rightarrow> bool" where
  "settles m h h' \<longleftrightarrow> host_ok h' \<and> vh_boot h' = vh_boot h \<and>
     (\<forall>i pid p. vh_procs h' pid = Some p \<and> in_group i p \<longrightarrow> vh_procs h pid = Some p) \<and> (\<forall>i. plain_elem i \<longrightarrow> pid_record m i h' = pid_record m i h)"

definition jailer_ok :: "Manager \<Rightarrow> vmhost start_env \<Rightarrow> bool" where
  "jailer_ok m se \<longleftrightarrow>
     (\<forall>h v h' r. host_ok h \<and> group_pids h (Sandbox_ID v) = {} \<and> start_jailer se h (Start_args m v) = (h', r) \<longrightarrow>
        host_ok h' \<and> vh_boot h' = vh_boot h \<and> (\<forall>i. plain_elem i \<and> i \<noteq> Sandbox_ID v \<longrightarrow> pid_record m i h' = pid_record m i h) \<and>
        (\<forall>i pid p. vh_procs h' pid = Some p \<and> in_group i p \<longrightarrow>
           vh_procs h pid = Some p \<or> i = Sandbox_ID v \<and> 1 < pid \<and> pid_record m i h' = Inr pid)) \<and>
     (\<forall>h pid. host_ok h \<longrightarrow> settles m h (start_reap se h pid))"

definition env_ok :: "Manager \<Rightarrow> fc_env \<Rightarrow> bool" where
  "env_ok m env \<longleftrightarrow>
     (\<forall>t. jailer_ok m (fe_start env t)) \<and> (\<forall>t h. host_ok h \<longrightarrow> settles m h (fe_time env t h)) \<and>
     (\<forall>t h s. ke_open (fe_kill env t h s) = Some ESRCH \<longrightarrow> vh_procs (run env t h 2) (Sandbox_PID (fst (Discover m (read_file h) s))) = None)"

section \<open>Runs of the host\<close>

lemma settles_recorded:
  assumes "recorded m h" "settles m h h'"
  shows "recorded m h'" "group_pids h' i \<subseteq> group_pids h i"
proof -
  have g: "group_pids h' i \<subseteq> group_pids h i" for i using assms(2) by (auto simp: settles_def group_pids_def)
  then show "group_pids h' i \<subseteq> group_pids h i" .
  have "host_ok h'" "\<And>i. plain_elem i \<Longrightarrow> pid_record m i h' = pid_record m i h" using assms(2) by (simp_all add: settles_def)
  with assms(1) g show "recorded m h'" unfolding recorded_def by (metis subsetD)
qed

lemma recorded_tracked: "recorded m h \<Longrightarrow> vmm_tracked m h s"
proof -
  assume r: "recorded m h"
  have "Sandbox_PID s \<in> group_pids h (Sandbox_ID s)" if "Alive (read_file h) s"
    using that r by (auto simp: Alive_owner recorded_def host.owner_def group_pids_def)
  with r show ?thesis unfolding recorded_def vmm_tracked_def by (metis sum.inject(2))
qed

lemma run_recorded:
  assumes "env_ok m env" "recorded m h"
  shows "recorded m (run env t h k) \<and> settles m (run env t h k) (run env t h (Suc k))"
proof (induction k)
  case 0
  then show ?case using assms by (simp add: env_ok_def recorded_def)
next
  case (Suc k)
  then have "recorded m (run env t h (Suc k))" using settles_recorded(1) by blast
  moreover then have "host_ok (run env t h (Suc k))" by (simp add: recorded_def)
  ultimately show ?case using assms(1) by (simp add: env_ok_def)
qed

lemma run_quiet: "env_ok m env \<Longrightarrow> recorded m h \<Longrightarrow> host.quiet i (run env t h)"
  using run_recorded unfolding host.quiet_def recorded_def settles_def by blast

lemma run_group: "env_ok m env \<Longrightarrow> recorded m h \<Longrightarrow> group_pids (run env t h k) i \<subseteq> group_pids h i"
  using host.quiet_back [OF run_quiet, where i = 0 and k = k] by (fastforce simp: group_pids_def)

lemma advance_laws:
  assumes "env_ok m env" "recorded m (mc_host mc)"
  shows "recorded m (mc_host (advance env k mc))" "vm_live (advance env k mc) i \<Longrightarrow> vm_live mc i"
  using run_recorded [OF assms] run_group [OF assms] unfolding advance_def vm_live_def by (simp_all, blast)

section \<open>Killing\<close>

lemma kill_wait_at_nil:
  assumes "kill_wait obs ctx s k = Some None"
  shows "\<exists>j. kill_wait_at obs ctx s k = Some j \<and> \<not> Alive (obs j) s"
proof -
  have "r = None \<longrightarrow> (\<exists>j. kill_wait_at obs ctx s k = Some j \<and> \<not> Alive (obs j) s)" if "kill_wait obs ctx s k = Some r" for r
  proof (rule kill_wait.raw_induct [OF _ that, where P = "\<lambda>obs ctx s k r. r = None \<longrightarrow> (\<exists>j. kill_wait_at obs ctx s k = Some j \<and> \<not> Alive (obs j) s)"])
    fix kw obs ctx s k r
    assume IH: "\<And>obs ctx s k r. kw obs ctx s k = Some r \<Longrightarrow> r = None \<longrightarrow> (\<exists>j. kill_wait_at obs ctx s k = Some j \<and> \<not> Alive (obs j) s)"
      and st: "(if Alive (obs k) s then (case ctx k of None \<Rightarrow> kw obs ctx s (Suc k) | Some e \<Rightarrow> Some (Some e)) else Some None) = Some r"
    show "r = None \<longrightarrow> (\<exists>j. kill_wait_at obs ctx s k = Some j \<and> \<not> Alive (obs j) s)"
    proof (cases "Alive (obs k) s \<and> r = None")
      case True
      with st have "kw obs ctx s (Suc k) = Some r" "ctx k = None" by (simp_all split: option.splits)
      with IH True obtain j where "kill_wait_at obs ctx s (Suc k) = Some j" "\<not> Alive (obs j) s" by blast
      with True \<open>ctx k = None\<close> show ?thesis by (subst kill_wait_at.simps) simp
    next
      case False
      then show ?thesis by (subst kill_wait_at.simps) auto
    qed
  qed
  with assms show ?thesis by blast
qed

context procfs
begin

lemma Kill_nil_end:
  assumes "quiet (Sandbox_ID s) hs" "processRoot m = root" "root = ''/proc''" "tracked m (hs 0) s"
    and "Kill m (\<lambda>k. rd (hs k)) env s = Some (sig, None)"
    and esrch: "ke_open env = Some ESRCH \<Longrightarrow> procs (hs 2) (Sandbox_PID (fst (Discover m (rd (hs 0)) s))) = None"
    and p: "procs (hs (kill_end m (\<lambda>k. rd (hs k)) env s)) pid = Some p" "in_group (Sandbox_ID s) p"
  shows False
proof -
  let ?e = "kill_end m (\<lambda>k. rd (hs k)) env s"
  have v: "valid (hs k)" for k using assms(1) by (simp add: quiet_def)
  obtain s' where d: "Discover m (rd (hs 0)) s = (s', None)"
    using assms(5) by (auto simp: Kill_def split: prod.splits option.splits)
  have al: "Alive (rd (hs k)) s' \<longleftrightarrow> owner (hs k) s'" for k
    using alive_iff [OF v] assms(3) by (simp add: Alive_def)
  have e3: "3 \<le> ?e" by (simp add: kill_end_def split: option.split)
  have "\<exists>k \<le> ?e. \<not> owner (hs k) s'"
  proof (rule ccontr)
    assume "\<not> (\<exists>k \<le> ?e. \<not> owner (hs k) s')"
    then have o: "owner (hs k) s'" if "k \<le> ?e" for k using that by blast
    have o12: "owner (hs 1) s'" "owner (hs (Suc 0)) s'" "owner (hs 2) s'" using o e3 by simp_all
    have "ke_open env \<noteq> Some ESRCH" using esrch d o12 by (auto simp: owner_def)
    moreover have "kill_wait (\<lambda>k. rd (hs (3 + k))) (ke_ctx env) s' 0 \<noteq> Some None"
    proof
      assume "kill_wait (\<lambda>k. rd (hs (3 + k))) (ke_ctx env) s' 0 = Some None"
      from kill_wait_at_nil [OF this] obtain j
        where j: "kill_wait_at (\<lambda>k. rd (hs (3 + k))) (ke_ctx env) s' 0 = Some j" "\<not> Alive (rd (hs (3 + j))) s'" by blast
      then have "?e = 3 + j" using d by (simp add: kill_end_def)
      then show False using j(2) al o [of "3 + j"] by simp
    qed
    ultimately show False
      using assms(5) d ownedAlive [OF v assms(2)] o12 by (auto simp: Kill_def split: if_splits)
  qed
  then obtain k where k: "k \<le> ?e" "\<not> owner (hs k) s'" by blast
  have pk: "procs (hs k) pid = Some p" using quiet_back [OF assms(1), of k "?e - k" pid p] p k(1) by simp
  have "procs (hs 0) pid = Some p" using quiet_back [OF assms(1), of 0 k pid p] pk p(2) by simp
  from Discover_tracked [OF v assms(2) d assms(4) this p(2)]
  have "Sandbox_PID s' = pid" "owner (hs 0) s'" "Sandbox_ID s' = Sandbox_ID s" by auto
  with owner_persists [of s' hs k p] assms(1) pk p(2) k(2) show False by simp
qed

end

lemma fc_Kill_laws:
  assumes "manager_ok m" "env_ok m env" "recorded m (mc_host mc)" "fc_Kill m env mc v = (mc', e)"
  shows "recorded m (mc_host mc')" "vm_live mc' i \<Longrightarrow> vm_live mc i" "e = None \<Longrightarrow> \<not> vm_live mc' (Sandbox_ID v)"
proof -
  let ?hs = "run env (mc_tick mc) (mc_host mc)" and ?ke = "fe_kill env (mc_tick mc) (mc_host mc) v"
  let ?e = "kill_end m (\<lambda>k. read_file (?hs k)) ?ke v"
  have mc': "mc' = advance env ?e mc" using assms(4) by (simp add: fc_Kill_def Let_def)
  show "recorded m (mc_host mc')" "vm_live mc' i \<Longrightarrow> vm_live mc i" using advance_laws [OF assms(2,3)] mc' by simp_all
  assume "e = None"
  then obtain sig where k: "Kill m (\<lambda>k. read_file (?hs k)) ?ke v = Some (sig, None)"
    using assms(4) by (auto simp: fc_Kill_def Let_def split: option.splits)
  have t: "host.tracked m (?hs 0) v"
    using recorded_tracked [OF assms(3), of v] assms(3) by (simp add: vmm_tracked_host [symmetric] recorded_def)
  have r: "processRoot m = ''/proc''" using assms(1) by (simp add: manager_ok_def)
  have "vh_procs (?hs 2) (Sandbox_PID (fst (Discover m (read_file (?hs 0)) v))) = None" if "ke_open ?ke = Some ESRCH"
    using assms(2) that unfolding env_ok_def by simp
  from host.Kill_nil_end [OF run_quiet [OF assms(2,3)] r refl t k this]
  have "group_pids (?hs ?e) (Sandbox_ID v) = {}" by (auto simp: group_pids_def)
  then show "\<not> vm_live mc' (Sandbox_ID v)" by (simp add: mc' advance_def vm_live_def)
qed

section \<open>Removing\<close>

definition pid_path :: "Manager \<Rightarrow> string \<Rightarrow> string" where
  "pid_path m i = path_Join [Jail m i, Base (Manager_Firecracker m) @ ''.pid'']"

lemma jail_paths:
  assumes "manager_ok m" "plain_elem i"
  shows "clean_elems (pid_path m i) = clean_elems (Manager_Root m) @ [''jailer'', Base (Manager_Firecracker m), i, ''root'', Base (Manager_Firecracker m) @ ''.pid'']"
    "IsAbs (pid_path m i)" "Clean (pid_path m i) = pid_path m i"
    "clean_elems (Dir (Jail m i)) = clean_elems (Manager_Root m) @ [''jailer'', Base (Manager_Firecracker m), i]"
proof -
  let ?b = "Base (Manager_Firecracker m)" and ?r = "clean_elems (Manager_Root m)"
  have m: "Manager_Root m \<noteq> []" "IsAbs (Manager_Root m)" "plain_elem ?b" using assms(1) by (auto simp: manager_ok_def IsAbs_def HasPrefix_def)
  have l: "list_all plain_elem [''jailer'', ?b, i, ''root'']" using m(3) assms(2) by (simp add: plain_elem_def)
  note j = path_Join_below [OF m(1) _ l, simplified, folded Jail_def]
  have "Jail m i \<noteq> []" using j(2) m(2) by (auto simp: IsAbs_def HasPrefix_def)
  moreover have "list_all plain_elem [?b @ ''.pid'']" using m(3) by (auto simp: plain_elem_def)
  ultimately have p: "clean_elems (pid_path m i) = clean_elems (Jail m i) @ [?b @ ''.pid'']" "IsAbs (pid_path m i) = IsAbs (Jail m i)"
      "Clean (pid_path m i) = pid_path m i"
    using path_Join_below [of "Jail m i" "[?b @ ''.pid'']"] by (simp_all add: pid_path_def)
  show "clean_elems (pid_path m i) = ?r @ [''jailer'', ?b, i, ''root'', ?b @ ''.pid'']" "IsAbs (pid_path m i)" "Clean (pid_path m i) = pid_path m i"
    using p j m(2) by simp_all
  let ?es = "?r @ [''jailer'', ?b, i]"
  have "Jail m i = abs_path (?es @ [''root''])" using Clean_abs [of "Jail m i"] j m(2) by simp
  moreover have n: "norm_segs False (?es @ [''root''])" using clean_elems_norm [of "Jail m i"] j m(2) by simp
  ultimately have "Dir (Jail m i) = abs_path ?es" using Dir_abs by metis
  moreover have "norm_segs False ?es" using n norm_segs_append1 by blast
  ultimately show "clean_elems (Dir (Jail m i)) = ?es" using abs_path_elems by metis
qed

lemma removal_spares:
  assumes "manager_ok m" "plain_elem i" "plain_elem j" "i \<noteq> j"
  shows "\<not> below (Dir (Jail m j)) (pid_path m i)" "\<not> below (path_Join [''/sys/fs/cgroup/niflhel'', j]) (pid_path m i)"
proof -
  let ?r = "clean_elems (Manager_Root m)"
  note p = jail_paths [OF assms(1,2)] and q = jail_paths(4) [OF assms(1,3)]
  show "\<not> below (Dir (Jail m j)) (pid_path m i)" unfolding below_def p(1) q using assms(4) by simp
  have "list_all plain_elem [j]" using assms(3) by simp
  from path_Join_below(1) [of "''/sys/fs/cgroup/niflhel''", OF _ _ this]
  have c: "clean_elems (path_Join [''/sys/fs/cgroup/niflhel'', j]) = [''sys'', ''fs'', ''cgroup'', ''niflhel'', j]"
    by (simp add: clean_elems_def)
  have "\<not> prefix [''sys''] ?r" using assms(1) by (simp add: manager_ok_def)
  then show "\<not> below (path_Join [''/sys/fs/cgroup/niflhel'', j]) (pid_path m i)"
    unfolding below_def c p(1) by (cases ?r) auto
qed

lemma proc_entry_deleted: "proc_entry (delete_below ds h) = proc_entry h"
proof -
  have "vh_procs (delete_below ds h) = vh_procs h" by (simp add: delete_below_def)
  then show ?thesis unfolding proc_entry_def by (intro ext) (simp only:)
qed

lemma fc_Remove_laws:
  assumes "manager_ok m" "recorded m (mc_host mc)" "plain_elem (Sandbox_ID v)" "\<not> vm_live mc (Sandbox_ID v)" "fc_Remove m env mc v = (mc', e)"
  shows "recorded m (mc_host mc')" "vm_live mc' i = vm_live mc i"
proof -
  obtain ds where r: "Remove_vm m (read_file (mc_host mc)) (fe_rm env (mc_tick mc)) v = (ds, e)" "mc_host mc' = delete_below ds (mc_host mc)"
    using assms(5) by (auto simp: fc_Remove_def split: prod.splits)
  then have ds: "set ds \<subseteq> {Dir (Jail m (Sandbox_ID v)), path_Join [''/sys/fs/cgroup/niflhel'', Sandbox_ID v]}"
    by (auto simp: Remove_vm_def Let_def split: if_splits option.splits)
  have g: "group_pids (mc_host mc') i = group_pids (mc_host mc) i" for i by (simp add: r(2) delete_below_def group_pids_def)
  then show "vm_live mc' i = vm_live mc i" by (simp add: vm_live_def)
  have "pid_record m i (mc_host mc') = pid_record m i (mc_host mc)" if "plain_elem i" "i \<noteq> Sandbox_ID v" for i
  proof -
    have "\<not> list_ex (\<lambda>d. below d (pid_path m i)) ds"
      using removal_spares [OF assms(1) that(1) assms(3) that(2)] ds by (auto simp: list_ex_iff)
    then have "read_file (mc_host mc') (pid_path m i) = read_file (mc_host mc) (pid_path m i)"
      by (simp add: r(2) read_file_def proc_entry_deleted, simp add: delete_below_def)
    then show ?thesis by (simp add: pid_record_def pid_path_def)
  qed
  moreover have "host_ok (mc_host mc')" using assms(2) by (simp add: r(2) delete_below_def recorded_def host_ok_def)
  ultimately show "recorded m (mc_host mc')"
    using assms(2,4) g unfolding recorded_def vm_live_def by (metis empty_iff)
qed

section \<open>Starting\<close>

lemma jailer_recorded:
  assumes "jailer_ok m se" "recorded m h" "plain_elem (Sandbox_ID v)" "group_pids h (Sandbox_ID v) = {}" "start_jailer se h (Start_args m v) = (h', r)"
  shows "recorded m h'" "i \<noteq> Sandbox_ID v \<Longrightarrow> group_pids h' i \<subseteq> group_pids h i"
proof -
  let ?s = "Sandbox_ID v"
  have J: "host_ok h'" "\<And>i. plain_elem i \<Longrightarrow> i \<noteq> ?s \<Longrightarrow> pid_record m i h' = pid_record m i h"
      "\<And>i pid p. vh_procs h' pid = Some p \<Longrightarrow> in_group i p \<Longrightarrow> vh_procs h pid = Some p \<or> i = ?s \<and> 1 < pid \<and> pid_record m i h' = Inr pid"
    using assms(1,2,4,5) unfolding jailer_ok_def recorded_def by blast+
  show "group_pids h' i \<subseteq> group_pids h i" if "i \<noteq> ?s" using J(3) that by (auto simp: group_pids_def)
  have "plain_elem i \<and> 1 < pid \<and> pid_record m i h' = Inr pid" if "pid \<in> group_pids h' i" for i pid
  proof -
    obtain p where p: "vh_procs h' pid = Some p" "in_group i p" using \<open>pid \<in> group_pids h' i\<close> by (auto simp: group_pids_def)
    show ?thesis
    proof (cases "vh_procs h pid = Some p")
      case True
      then have "pid \<in> group_pids h i" using p(2) by (auto simp: group_pids_def)
      then have "i \<noteq> ?s" "plain_elem i" "1 < pid" "pid_record m i h = Inr pid" using assms(2,4) by (auto simp: recorded_def)
      then show ?thesis using J(2) by simp
    next
      case False
      then have "i = ?s \<and> 1 < pid \<and> pid_record m i h' = Inr pid" using J(3) [OF p] by blast
      with assms(3) show ?thesis by blast
    qed
  qed
  then show "recorded m h'" using J(1) by (simp add: recorded_def)
qed

lemma spawn_recorded:
  assumes "jailer_ok m se" "recorded m h" "plain_elem (Sandbox_ID v)" "group_pids h (Sandbox_ID v) = {}" "spawn_vmm se (Start_args m v) h = (h', r)"
  shows "recorded m h' \<and> (\<forall>i. i \<noteq> Sandbox_ID v \<longrightarrow> group_pids h' i \<subseteq> group_pids h i)"
proof -
  obtain h1 q where q: "start_jailer se h (Start_args m v) = (h1, q)" by (rule prod.exhaust)
  note J = jailer_recorded [OF assms(1-4) q]
  have "settles m h1 (start_reap se h1 pid)" for pid using assms(1) J(1) unfolding jailer_ok_def recorded_def by blast
  note R = settles_recorded [OF J(1) this]
  have "h' = h \<or> h' = h1 \<or> (\<exists>pid. h' = start_reap se h1 pid)"
    using assms(5) q by (auto simp: spawn_vmm_def split: option.splits sum.splits)
  then consider "h' = h" | "h' = h1" | pid where "h' = start_reap se h1 pid" by blast
  then show ?thesis
  proof cases
    case 3
    then show ?thesis using R J(2) by blast
  qed (use assms(2) J in auto)
qed

lemma fc_Start_laws:
  assumes "env_ok m env" "recorded m (mc_host mc)" "plain_elem (Sandbox_ID v)" "\<not> vm_live mc (Sandbox_ID v)" "fc_Start m env mc v b = (mc', r)"
  shows "recorded m (mc_host mc') \<and> (\<forall>i. vm_live mc' i \<longrightarrow> vm_live mc i \<or> i = Sandbox_ID v)"
proof -
  let ?se = "(fe_start env (mc_tick mc))\<lparr>start_read := read_file\<rparr>"
  obtain h j where s: "Start_vm m ?se (mc_host mc) (mc_jails mc (Sandbox_ID v)) v b = ((h, j), r)" "mc_host mc' = h"
    using assms(5) by (auto simp: fc_Start_def Let_def split: prod.splits)
  have "jailer_ok m (fe_start env (mc_tick mc))" using assms(1) unfolding env_ok_def by blast
  moreover have "start_jailer ?se = start_jailer (fe_start env (mc_tick mc))" "start_reap ?se = start_reap (fe_start env (mc_tick mc))" by simp_all
  ultimately have jl: "jailer_ok m ?se" unfolding jailer_ok_def by (simp only:)
  have "h = mc_host mc \<or> (\<exists>r. spawn_vmm ?se (Start_args m v) (mc_host mc) = (h, r))"
    using s(1) unfolding Start_vm_def by (auto simp: Let_def split: option.splits sum.splits if_splits prod.splits)
  then show ?thesis
  proof
    assume "h = mc_host mc"
    then show ?thesis using s(2) assms(2) by (simp add: vm_live_def)
  next
    assume "\<exists>r. spawn_vmm ?se (Start_args m v) (mc_host mc) = (h, r)"
    then obtain r' where "spawn_vmm ?se (Start_args m v) (mc_host mc) = (h, r')" by blast
    from spawn_recorded [OF jl assms(2,3) _ this] assms(4) s(2) show ?thesis by (auto simp: vm_live_def)
  qed
qed

section \<open>The contract of the daemon\<close>

locale jailed =
  fixes m :: Manager and env :: fc_env
  assumes manager: "manager_ok m" and surroundings: "env_ok m env"

sublocale jailed \<subseteq> vm_backend "fc_backend m env" vm_live "\<lambda>mc. recorded m (mc_host mc)" plain_elem
proof (unfold_locales, goal_cases)
  case (1 mc v b mc' r)
  show ?case by (rule fc_Start_laws [OF surroundings 1(1-3)]) (use 1(4) in \<open>simp add: fc_backend_def\<close>)
next
  case (2 mc v mc' e)
  then have "fc_Kill m env mc v = (mc', e)" by (simp add: fc_backend_def)
  from fc_Kill_laws [OF manager surroundings 2(1) this] show ?case by blast
next
  case (3 mc v mc' e)
  then have "fc_Remove m env mc v = (mc', e)" by (simp add: fc_backend_def)
  from fc_Remove_laws [OF manager 3(1-3) this] show ?case by blast
next
  case (4 mc v mc' e)
  then have "mc' = advance env (fe_polls env (mc_tick mc)) mc" by (simp add: fc_backend_def fc_Ready_def Let_def)
  with advance_laws [OF surroundings 4(1)] show ?case by blast
next
  case (5 mc v q mc' a)
  then have "mc' = advance env (fe_polls env (mc_tick mc)) mc" by (simp add: fc_backend_def)
  with advance_laws [OF surroundings 5(1)] show ?case by blast
next
  case (6 mc v)
  have "VM_Await (fc_backend m env) mc v = advance env (fe_polls env (mc_tick mc)) mc" by (simp add: fc_backend_def)
  with advance_laws [OF surroundings 6] show ?case by simp
qed

context jailed
begin

lemma backend: "vm_backend (fc_backend m env) vm_live (\<lambda>mc. recorded m (mc_host mc)) plain_elem"
  by (rule vm_backend_axioms)

end

section \<open>A host on which everything succeeds\<close>

text \<open>
  A jailer as it is documented: it refuses identifiers with other characters than letters, digits and
  dashes, starts one process in the control group of the sandbox, and writes its pid file into
  the jail.  It is run on a host whose processes go on until a given time.
\<close>

definition sim_process :: "string \<Rightarrow> process" where
  "sim_process sid = \<lparr>p_comm = ''firecracker'', p_fields = replicate 20 ''1'', p_cgroup = [(''0'', [], ''/niflhel/'' @ sid)]\<rparr>"

definition sim_pids :: "int list" where
  "sim_pids = map int [2..<100]"

definition sim_jailer :: "vmhost \<Rightarrow> string list \<Rightarrow> vmhost \<times> int result" where
  "sim_jailer h args =
     (let sid = args ! 1; exec = args ! 3; base = args ! 9 in
      if sid = [] \<or> \<not> list_all field_char sid then (h, Inl (Errorf ''invalid instance ID''))
      else case find (\<lambda>pid. vh_procs h pid = None) sim_pids of
        None \<Rightarrow> (h, Inl (ErrSys ''resource temporarily unavailable''))
      | Some pid \<Rightarrow>
          (h\<lparr>vh_procs := (vh_procs h)(pid \<mapsto> sim_process sid),
             vh_files := (vh_files h)(path_Join [base, Base exec, sid, ''root'', Base exec @ ''.pid''] \<mapsto> Itoa pid)\<rparr>, Inr pid))"

definition sim_start :: "vmhost start_env" where
  "sim_start = \<lparr>start_check = start_check demo_start, start_version = start_version demo_start, start_fault = \<lambda>_. None,
     start_jailer = sim_jailer, start_reap = \<lambda>h pid. h\<lparr>vh_procs := (vh_procs h)(pid := None)\<rparr>, start_read = read_file\<rparr>"

definition sim_env :: fc_env where
  "sim_env = \<lparr>fe_start = \<lambda>_. sim_start,
     fe_time = \<lambda>t h. h\<lparr>vh_procs := (\<lambda>pid. if t < 100 then vh_procs h pid else None)\<rparr>,
     fe_kill = \<lambda>_ _ _. \<lparr>ke_open = None, ke_signal = None, ke_ctx = \<lambda>k. if k < 200 then None else Some (Errorf ''context deadline exceeded'')\<rparr>,
     fe_rm = \<lambda>_ _. None, fe_polls = \<lambda>_. 1, fe_client = \<lambda>_ _. Inr (),
     fe_status = \<lambda>_ v. Inr \<lparr>GuestStatus_Protocol = Protocol, GuestStatus_ID = Sandbox_ID v, GuestStatus_Generation = Sandbox_Generation v,
       GuestStatus_State = ''running'', GuestStatus_Exit = None, GuestStatus_PID = 1\<rparr>,
     fe_done = \<lambda>_. False, fe_call = \<lambda>_ _ _. Inr AnsNone\<rparr>"

lemma demo_manager_ok: "manager_ok demo_manager"
  by (simp add: manager_ok_def demo_manager_def processRoot_def IsAbs_def HasPrefix_def Base_def plain_elem_def clean_elems_def)

lemma demo_pid_path:
  assumes "plain_elem i"
  shows "pid_path demo_manager i = ''/v/jailer/fc/'' @ i @ ''/root/fc.pid''"
proof -
  have "pid_path demo_manager i = abs_path [''v'', ''jailer'', ''fc'', i, ''root'', ''fc.pid'']"
    using jail_paths(1-3) [OF demo_manager_ok assms] Clean_abs [of "pid_path demo_manager i"]
    by (simp add: demo_manager_def Base_def clean_elems_def)
  then show ?thesis by (simp add: abs_path_def)
qed

lemma sim_pid_path:
  assumes "plain_elem i"
  shows "path_Join [path_Join [''/v'', ''jailer''], ''fc'', i, ''root'', ''fc.pid''] = ''/v/jailer/fc/'' @ i @ ''/root/fc.pid''"
proof -
  have j: "path_Join [''/v'', ''jailer''] = ''/v/jailer''" by (simp add: path_Join_def Clean_def)
  have l: "list_all plain_elem [''fc'', i, ''root'', ''fc.pid'']" using assms by (simp add: plain_elem_def)
  note b = path_Join_below [of "''/v/jailer''", OF _ _ l, simplified]
  have "path_Join [''/v/jailer'', ''fc'', i, ''root'', ''fc.pid''] = abs_path [''v'', ''jailer'', ''fc'', i, ''root'', ''fc.pid'']"
    using b Clean_abs by (metis (no_types, lifting) append_Cons append_Nil)
  then show ?thesis unfolding j by (simp add: abs_path_def)
qed

definition sim_started :: "string \<Rightarrow> int \<Rightarrow> vmhost \<Rightarrow> vmhost" where
  "sim_started sid pid h = h\<lparr>vh_procs := (vh_procs h)(pid \<mapsto> sim_process sid),
     vh_files := (vh_files h)(''/v/jailer/fc/'' @ sid @ ''/root/fc.pid'' \<mapsto> Itoa pid)\<rparr>"

lemma plain_field: "list_all field_char s \<Longrightarrow> s \<noteq> [] \<Longrightarrow> plain_elem s \<and> CHR 0x0A \<notin> set s"
proof -
  assume a: "list_all field_char s" "s \<noteq> []"
  have "\<not> field_char (CHR ''/'')" "\<not> field_char (CHR ''.'')" "\<not> field_char (CHR 0x0A)" by (simp_all add: field_char_def is_alnum_def)
  then have "CHR ''/'' \<notin> set s" "CHR ''.'' \<notin> set s" "CHR 0x0A \<notin> set s" using a(1) by (auto simp: list_all_iff)
  with a(2) show ?thesis by (auto simp: plain_elem_def)
qed

lemma sim_jailer_cases:
  assumes "sim_jailer h (Start_args demo_manager v) = (h', r)"
  shows "h' = h \<or> (\<exists>pid. list_all field_char (Sandbox_ID v) \<and> Sandbox_ID v \<noteq> [] \<and> 1 < pid \<and> in_int64 pid \<and> h' = sim_started (Sandbox_ID v) pid h)"
proof -
  let ?s = "Sandbox_ID v"
  have args: "Start_args demo_manager v ! 1 = ?s" "Start_args demo_manager v ! 3 = ''/bin/fc''"
      "Start_args demo_manager v ! 9 = path_Join [''/v'', ''jailer'']"
    by (simp_all add: Start_args_def demo_manager_def)
  have b: "Base ''/bin/fc'' = ''fc''" by (simp add: Base_def)
  show ?thesis
  proof (cases "h' = h")
    case False
    then obtain pid where f: "list_all field_char ?s" "?s \<noteq> []" "find (\<lambda>pid. vh_procs h pid = None) sim_pids = Some pid"
        "h' = h\<lparr>vh_procs := (vh_procs h)(pid \<mapsto> sim_process ?s),
           vh_files := (vh_files h)(path_Join [path_Join [''/v'', ''jailer''], ''fc'', ?s, ''root'', ''fc.pid''] \<mapsto> Itoa pid)\<rparr>"
      using assms unfolding sim_jailer_def Let_def args b by (auto split: if_splits option.splits)
    have "pid \<in> set sim_pids" using f(3) by (auto simp: find_Some_iff)
    then have "1 < pid" "in_int64 pid" by (auto simp: sim_pids_def in_int64_def max_int64_def)
    with f show ?thesis using sim_pid_path plain_field by (auto simp: sim_started_def)
  qed simp
qed

lemma sim_started_ok: "host_ok h \<Longrightarrow> list_all field_char s \<Longrightarrow> s \<noteq> [] \<Longrightarrow> in_int64 pid \<Longrightarrow> host_ok (sim_started s pid h)"
proof -
  assume a: "host_ok h" "list_all field_char s" "s \<noteq> []" "in_int64 pid"
  have "field_char (CHR ''1'')" by (simp add: field_char_def is_alnum_def)
  then have "proc_ok (sim_process s)" using plain_field [OF a(2,3)] by (simp add: proc_ok_def sim_process_def list_all_iff)
  with a(1,4) show ?thesis by (simp add: host_ok_def sim_started_def)
qed

lemma sim_started_record:
  assumes "plain_elem i"
  shows "read_file (sim_started s pid h) (pid_path demo_manager i) = (if i = s then Inr (Itoa pid) else read_file h (pid_path demo_manager i))"
  unfolding demo_pid_path [OF assms] by (simp add: sim_started_def read_file_def HasPrefix_def)

lemma sim_started_procs: "vh_procs (sim_started s pid h) q = Some p \<Longrightarrow> in_group i p \<Longrightarrow> vh_procs h q = Some p \<or> i = s \<and> q = pid"
  by (auto simp: sim_started_def in_group_def sim_process_def split: if_splits)

lemma TrimSpace_Itoa [simp]: "TrimSpace (Itoa i) = Itoa i"
proof (rule TrimSpace_id)
  show n: "Itoa i \<noteq> []" by (simp add: Itoa_def)
  have "\<not> is_space c" if "c \<in> set (Itoa i)" for c using Itoa_chars [OF that] by (auto simp: is_digit_def is_space_def)
  then show "\<not> is_space (hd (Itoa i))" "\<not> is_space (last (Itoa i))" using n by simp_all
qed

lemma pid_record_path: "pid_record m i h = (case read_file h (pid_path m i) of Inl e \<Rightarrow> Inl e | Inr raw \<Rightarrow> Atoi (TrimSpace raw))"
  by (simp add: pid_record_def pid_path_def)

lemma sim_settles:
  assumes "host_ok h" "vh_boot h' = vh_boot h" "vh_files h' = vh_files h" "\<And>pid p. vh_procs h' pid = Some p \<Longrightarrow> vh_procs h pid = Some p"
  shows "settles demo_manager h h'"
proof -
  have "read_file h' (pid_path demo_manager i) = read_file h (pid_path demo_manager i)" if "plain_elem i" for i
    unfolding demo_pid_path [OF that] by (simp add: read_file_def HasPrefix_def assms(3))
  moreover have "host_ok h'" using assms unfolding host_ok_def by metis
  ultimately show ?thesis using assms(2,4) unfolding settles_def pid_record_path by simp
qed

lemma sim_jailer_ok: "jailer_ok demo_manager sim_start"
  unfolding jailer_ok_def
proof (rule conjI; intro allI impI)
  fix h :: vmhost and v h' r
  assume a: "host_ok h \<and> group_pids h (Sandbox_ID v) = {} \<and> start_jailer sim_start h (Start_args demo_manager v) = (h', r)"
  let ?s = "Sandbox_ID v"
  have "sim_jailer h (Start_args demo_manager v) = (h', r)" using a by (simp add: sim_start_def)
  from sim_jailer_cases [OF this]
  show "host_ok h' \<and> vh_boot h' = vh_boot h \<and> (\<forall>i. plain_elem i \<and> i \<noteq> ?s \<longrightarrow> pid_record demo_manager i h' = pid_record demo_manager i h) \<and>
    (\<forall>i pid p. vh_procs h' pid = Some p \<and> in_group i p \<longrightarrow> vh_procs h pid = Some p \<or> i = ?s \<and> 1 < pid \<and> pid_record demo_manager i h' = Inr pid)"
  proof
    assume "h' = h"
    then show ?thesis using a by simp
  next
    assume "\<exists>pid. list_all field_char ?s \<and> ?s \<noteq> [] \<and> 1 < pid \<and> in_int64 pid \<and> h' = sim_started ?s pid h"
    then obtain pid where f: "list_all field_char ?s" "?s \<noteq> []" "1 < pid" "in_int64 pid" "h' = sim_started ?s pid h" by blast
    have p: "plain_elem ?s" using plain_field f(1,2) by blast
    have "pid_record demo_manager ?s h' = Inr pid" unfolding pid_record_path f(5) sim_started_record [OF p] using f(4) by simp
    moreover have "pid_record demo_manager i h' = pid_record demo_manager i h" if "plain_elem i" "i \<noteq> ?s" for i
      unfolding pid_record_path f(5) sim_started_record [OF that(1)] using that(2) by simp
    moreover have "host_ok h'" "vh_boot h' = vh_boot h" using sim_started_ok f a by (simp_all add: sim_started_def)
    ultimately show ?thesis using sim_started_procs f(3,5) by blast
  qed
next
  fix h :: vmhost and pid
  assume "host_ok h"
  then show "settles demo_manager h (start_reap sim_start h pid)"
    by (intro sim_settles) (auto simp: sim_start_def split: if_splits)
qed

lemma sim_env_ok: "env_ok demo_manager sim_env"
proof -
  have "ke_open (fe_kill sim_env t h s) \<noteq> Some ESRCH" for t h s by (simp add: sim_env_def)
  moreover have "settles demo_manager h (fe_time sim_env t h)" if "host_ok h" for t h
    using that by (intro sim_settles) (auto simp: sim_env_def split: if_splits)
  ultimately show ?thesis using sim_jailer_ok unfolding env_ok_def by (simp add: sim_env_def)
qed

interpretation sim: jailed demo_manager sim_env
  by unfold_locales (rule demo_manager_ok, rule sim_env_ok)

section \<open>A run\<close>

definition sim_image :: Image where
  "sim_image = \<lparr>Image_Ref = ''i'', Image_Digest = ''d'',
     Image_Config = \<lparr>ImageConfig_Entrypoint = [''/init''], ImageConfig_Cmd = [], ImageConfig_Env = [], ImageConfig_User = [], ImageConfig_WorkingDir = [],
       ImageConfig_StopSignal = [], ImageConfig_Volumes = [], ImageConfig_Healthcheck = False\<rparr>,
     Image_Layers = [], Image_DiffIDs = [], Image_Manifest = []\<rparr>"

definition sim_svc :: "(machine, unit, unit) Services" where
  "sim_svc = \<lparr>Svc_VM = fc_backend demo_manager sim_env,
     Svc_Net = \<lparr>Net_Prepare = \<lambda>n _. (n, None), Net_Remove = \<lambda>n _. (n, None), Net_Listen = \<lambda>n _. (n, None), Net_Close = \<lambda>n _. n,
       Net_DNS = \<lambda>n _ _. (n, None), Net_StopDNS = \<lambda>n _. n\<rparr>,
     Svc_Repo = \<lparr>Repo_PullImage = \<lambda>r _ _. (r, Inr sim_image), Repo_PullBase = \<lambda>r _ _. (r, Inr demo_bundle), Repo_GetBase = \<lambda>_ _. Inr demo_bundle,
       Repo_Carrier = \<lambda>r _ _. (r, None), Repo_Disk = \<lambda>r _ _ _. (r, None), Repo_MkdirAll = \<lambda>r _. (r, None), Repo_MkdirTemp = \<lambda>r _. (r, Inr ''/t''),
       Repo_Remove = \<lambda>r _. (r, None), Repo_RemoveAll = \<lambda>r _. (r, None), Repo_SaveResult = \<lambda>r _ _. (r, None)\<rparr>,
     Svc_db = \<lambda>_ _. None, Svc_now = \<lambda>n. int n, Svc_ID = \<lambda>n. ''s'' @ itoa_nat n, Svc_meminfo = \<lambda>_. Inr (join_with (CHR '' '') [''MemAvailable:'', Itoa 8000000, ''kB''] @ [CHR 0x0A])\<rparr>"

definition sim_host :: vmhost where
  "sim_host = \<lparr>vh_boot = ''b7'', vh_procs = Map.empty, vh_files = Map.empty\<rparr>"

definition sim_daemon :: "(machine, unit, unit) Daemon" where
  "sim_daemon = \<lparr>Daemon_Config = DefaultConfig\<lparr>DaemonConfig_DefaultBase := ''base''\<rparr>, Daemon_Store = empty_store,
     Daemon_vm = \<lparr>mc_host = sim_host, mc_jails = \<lambda>_. Map.empty, mc_tick = 0\<rparr>, Daemon_net = (), Daemon_repo = (),
     Daemon_monitors = \<lambda>_. 0, Daemon_dns = Map.empty, Daemon_ports = \<lambda>_. [], Daemon_calls = 0\<rparr>"

definition sim_spec :: Spec where
  "sim_spec = DefaultSpec\<lparr>Spec_Image := ''i'', Spec_Network := ''none''\<rparr>"

definition sim_v :: Sandbox where
  "sim_v = new_sandbox ''s1'' (with_name ''s1'' (sim_spec\<lparr>Spec_Base := ''base''\<rparr>)) 1 1"

definition sim_row :: "Sandbox \<Rightarrow> sandbox_row" where
  "sim_row u = \<lparr>row_id = ''s1'', row_name = ''nf-s1'', row_body = u\<rparr>"

lemma sim_svc_sel [simp]:
  "Svc_VM sim_svc = fc_backend demo_manager sim_env" "Svc_db sim_svc n = (\<lambda>_. None)" "Svc_now sim_svc n = int n" "Svc_ID sim_svc n = ''s'' @ itoa_nat n"
  "Svc_meminfo sim_svc n = Inr (join_with (CHR '' '') [''MemAvailable:'', Itoa 8000000, ''kB''] @ [CHR 0x0A])"
  "Repo_PullImage (Svc_Repo sim_svc) r x y = (r, Inr sim_image)" "Repo_PullBase (Svc_Repo sim_svc) r x y = (r, Inr demo_bundle)"
  "Repo_GetBase (Svc_Repo sim_svc) r x = Inr demo_bundle" "Repo_Carrier (Svc_Repo sim_svc) r x img = (r, None)" "Repo_Disk (Svc_Repo sim_svc) r x k y = (r, None)"
  "Repo_MkdirAll (Svc_Repo sim_svc) r x = (r, None)" "Repo_MkdirTemp (Svc_Repo sim_svc) r x = (r, Inr ''/t'')" "Repo_RemoveAll (Svc_Repo sim_svc) r x = (r, None)"
  "Net_Remove (Svc_Net sim_svc) x0 v = (x0, None)"
  by (simp_all add: sim_svc_def)

lemma sim_v_sel [simp]:
  "Sandbox_ID sim_v = ''s1''" "Sandbox_Name sim_v = ''nf-s1''" "Sandbox_Slot sim_v = 1"
  "Spec_Mounts (Sandbox_Spec sim_v) = []" "Spec_Network (Sandbox_Spec sim_v) = ''none''" "Spec_CPUs (Sandbox_Spec sim_v) = 1"
  "Spec_Memory (Sandbox_Spec sim_v) = 512 * MiB"
  by (simp_all add: sim_v_def new_sandbox_def with_name_def sim_spec_def DefaultSpec_def)

lemmas sim_calls = d_List_def d_Create_def d_Get_def d_Update_def d_Intent_def d_db_def d_now_def called_def on_repo_def
  List_sandboxes_def Create_row_def Update_def Intent_def Get_def add_event_def set_body_def

lemma sim_created:
  "\<exists>d. Create_alloc sim_svc sim_daemon sim_spec = (d, Inr sim_v) \<and> Store_sandboxes (Daemon_Store d) = [sim_row sim_v] \<and> Daemon_vm d = Daemon_vm sim_daemon"
proof -
  let ?s = "sim_spec\<lparr>Spec_Base := ''base''\<rparr>"
  have v: "Validate sim_spec = None" by (simp add: Validate_def sim_spec_def DefaultSpec_def MiB_def GiB_def)
  have b: "with_base sim_daemon sim_spec = ?s" by (simp add: with_base_def sim_daemon_def sim_spec_def DefaultSpec_def)
  have f: "first_free [] 1 = 1" by (subst first_free.simps) simp
  have i: "''s'' @ itoa_nat (Suc 0) = ''s1''" by (simp add: itoa_nat.simps digit_char_def char_of_def bit_0)
  have l: "d_List sim_svc sim_daemon = (called sim_daemon, Inr [])" by (simp add: sim_calls sim_daemon_def empty_store_def)
  have c: "create_conflict ?s [] = None" "mount_names ?s = []" by (simp_all add: mount_names_def sim_spec_def DefaultSpec_def)
  have k: "Daemon_calls (called sim_daemon) = Suc 0" "d_now sim_svc (called sim_daemon) = 1" by (simp_all add: called_def d_now_def sim_daemon_def)
  have r: "d_Create sim_svc (called sim_daemon) sim_v =
      ((called (called sim_daemon))\<lparr>Daemon_Store := add_event 1 ''s1'' ''create'' (empty_store\<lparr>Store_sandboxes := [sim_row sim_v]\<rparr>)\<rparr>, None)"
    by (simp add: d_Create_def Create_row_def d_db_def d_now_def called_def sim_daemon_def empty_store_def sim_row_def)
  have "Create_alloc sim_svc sim_daemon sim_spec =
      ((called (called sim_daemon))\<lparr>Daemon_Store := add_event 1 ''s1'' ''create'' (empty_store\<lparr>Store_sandboxes := [sim_row sim_v]\<rparr>)\<rparr>, Inr sim_v)"
    unfolding Create_alloc_def v b l option.case prod.case sum.case c Let_def check_volumes.simps list.map f k sim_svc_sel i
      sim_v_def [symmetric] r by simp
  then show ?thesis by (simp add: add_event_def called_def)
qed

lemma sim_prepared:
  assumes "Store_sandboxes (Daemon_Store d) = [sim_row sim_v]"
  shows "\<exists>d' u p now. Create_prepare sim_svc d sim_v = (d', Inr u) \<and>
    Store_sandboxes (Daemon_Store d') = [sim_row ((prepared sim_v sim_image demo_bundle p)\<lparr>Sandbox_State := ''created'', Sandbox_Updated := now\<rparr>)] \<and>
    Daemon_vm d' = Daemon_vm d"
proof -
  obtain p where p: "Resolve (Sandbox_Spec sim_v) (Image_Config sim_image) = Inr p"
    by (simp add: Resolve_def resolve_args_def sim_v_def new_sandbox_def with_name_def sim_spec_def DefaultSpec_def sim_image_def IsAbs_def HasPrefix_def)
  show ?thesis
    unfolding Create_prepare_def create_images_def create_disks_def
    using assms p by (simp add: sim_calls sim_row_def Let_def, blast)
qed

lemma sim_memory: "availableMemory (Svc_meminfo sim_svc n) = Inr 8192000000"
proof -
  let ?fs = "[''MemAvailable:'', Itoa 8000000, ''kB'']" and ?nl = "CHR 0x0A"
  have d: "\<not> is_space c \<and> c \<noteq> ?nl" if "c \<in> set (Itoa 8000000)" for c
    using Itoa_chars [OF that] by (auto simp: is_digit_def is_space_def)
  have i: "Itoa 8000000 \<noteq> []" by (simp add: Itoa_def)
  have "Fields (join_with (CHR '' '') ?fs) = ?fs"
    using d i fields_aux_word [of "''MemAvailable:''" "[]" "CHR '' '' # Itoa 8000000 @ CHR '' '' # ''kB''"]
      fields_aux_word [of "Itoa 8000000" "[]" "CHR '' '' # ''kB''"] fields_aux_word [of "''kB''" "[]" "[]"]
    by (simp add: Fields_def list_all_iff is_space_def)
  moreover have "Split (join_with (CHR '' '') ?fs @ [?nl]) ?nl = [join_with (CHR '' '') ?fs, []]"
    using d by (subst Split_append) auto
  ultimately show ?thesis
    unfolding sim_svc_sel availableMemory_def sum.case
    using ParseInt_Itoa [of 8000000] by (simp del: join_with.simps add: in_int64_def max_int64_def)
qed

text \<open>The record of the sandbox once it is prepared, and the run up to its admission.\<close>

definition sim_u :: "Process \<Rightarrow> int \<Rightarrow> Sandbox" where
  "sim_u p now = (prepared sim_v sim_image demo_bundle p)\<lparr>Sandbox_State := ''created'', Sandbox_Updated := now\<rparr>"

lemma sim_u_sel [simp]:
  "Sandbox_ID (sim_u p now) = ''s1''" "Sandbox_Name (sim_u p now) = ''nf-s1''" "Sandbox_State (sim_u p now) = ''created''"
  "Sandbox_Spec (sim_u p now) = Sandbox_Spec sim_v" "Sandbox_Slot (sim_u p now) = 1" "Sandbox_GuestMemory (sim_u p now) = 640 * MiB"
  by (simp_all add: sim_u_def prepared_def guest_memory_def demo_bundle_def go_div_def in_int64_def max_int64_def MiB_def)

lemma sim_admitted:
  assumes "Store_sandboxes (Daemon_Store d) = [sim_row (sim_u p now)]"
  shows "\<exists>d' k. Start_admit sim_svc d ''s1'' = (d', Inr (starting (sim_u p now), demo_bundle)) \<and>
    Store_sandboxes (Daemon_Store d') = [sim_row ((starting (sim_u p now))\<lparr>Sandbox_Updated := k\<rparr>)] \<and> Daemon_vm d' = Daemon_vm d"
proof -
  have c: "VM_Check (fc_backend demo_manager sim_env) h = None" for h
    by (simp add: fc_backend_def sim_env_def sim_start_def demo_start_def Check_def demo_manager_def)
  have m: "budget_error (reserved_memory (envelope (sim_u p now)) [sim_u p now]) (Inr 8192000000) = None"
    by (simp add: reservesVMResources_def budget_error_def memoryBudget_def envelope_def in_int64_def max_int64_def MiB_def)
  have w: "volume_conflict (sim_u p now) [sim_u p now] = None" by simp
  have g: "Get (\<lambda>_. None) (Daemon_Store d) ''s1'' = Inr (sim_u p now)" "List_sandboxes (\<lambda>_. None) (Daemon_Store d) = Inr [sim_u p now]"
    using assms by (simp_all add: Get_def List_sandboxes_def sim_row_def)
  show ?thesis
    unfolding Start_admit_def d_Get_def d_List_def
    using g c m w sim_memory assms
    by (simp add: called_def d_db_def d_Update_def Update_def sim_row_def set_body_def, blast)
qed

text \<open>The machine is started, and the daemon crashes before it records the process.\<close>

lemma sim_started_live:
  assumes "mc_host mc = sim_host"
  shows "\<exists>mc' r. VM_Start (fc_backend demo_manager sim_env) mc (starting (sim_u p now)) demo_bundle = (mc', r) \<and> vm_live mc' ''s1''"
proof -
  let ?v = "starting (sim_u p now)" and ?se = "sim_start\<lparr>start_read := read_file\<rparr>"
  have v: "Sandbox_ID ?v = ''s1''" "Sandbox_Spec ?v = Sandbox_Spec sim_v" "Sandbox_Slot ?v = 1" by (simp_all add: starting_def)
  have vo: "version_ok (''Firecracker v1.12.0'' @ [CHR 0x0A]) [''1.12.0'']" by (simp add: version_ok_def contains_def)
  have c: "Check demo_manager (start_check ?se) = None" by (simp add: Check_def sim_start_def demo_start_def demo_manager_def)
  obtain j' where f: "Start_files demo_manager (\<lambda>_. None) (mc_jails mc ''s1'') ?v demo_bundle = (j', None)"
    using v by (simp add: Start_files_def fixed_links_def Let_def link_def write_boot_def attempt_def)
  have "list_all field_char ''s1''" by (simp add: field_char_def is_alnum_def)
  moreover have "find (\<lambda>pid. vh_procs sim_host pid = None) sim_pids = Some 2" by (simp add: sim_pids_def sim_host_def upt_rec)
  ultimately obtain h where j: "sim_jailer sim_host (Start_args demo_manager ?v) = (h, Inr 2)" "vh_procs h 2 = Some (sim_process ''s1'')"
    using v(1) by (simp add: sim_jailer_def Let_def Start_args_def)
  have "host_ok sim_host" "group_pids sim_host ''s1'' = {}"
    by (simp_all add: host_ok_def sim_host_def boot_ok_def field_char_def is_alnum_def group_pids_def)
  then have ok: "host_ok h" using sim_jailer_cases [OF j(1)] sim_started_ok v(1) by auto
  have "pidStartAt (read_file h) ''/proc'' 2 = Inr (vh_boot h @ '':'' @ p_start (sim_process ''s1''))" using host.pidStart [OF ok] j(2) by simp
  then have s: "\<exists>r. spawn_vmm ?se (Start_args demo_manager ?v) sim_host = (h, r)"
    using j(1) by (simp add: spawn_vmm_def sim_start_def)
  have "\<exists>r. Start_vm demo_manager ?se sim_host (mc_jails mc ''s1'') ?v demo_bundle = ((h, j'), r)"
    unfolding Start_vm_def c using vo f s by (auto simp: sim_start_def demo_start_def demo_bundle_def Let_def)
  moreover have "2 \<in> group_pids h ''s1''" using j(2) by (simp add: group_pids_def in_group_def sim_process_def)
  ultimately show ?thesis
    using assms v(1) by (auto simp: fc_backend_def fc_Start_def sim_env_def Let_def vm_live_def)
qed

definition sim_system :: "(machine, unit, unit) system" where
  "sim_system = \<lparr>sys_d = sim_daemon, sys_boot = Map.empty, sys_create = None\<rparr>"

lemma sim_run_prepared:
  "\<exists>s p now. (step sim_svc)\<^sup>*\<^sup>* sim_system s \<and> sys_boot s = Map.empty \<and> sys_create s = None \<and>
     Store_sandboxes (Daemon_Store (sys_d s)) = [sim_row (sim_u p now)] \<and> mc_host (Daemon_vm (sys_d s)) = sim_host"
proof -
  obtain d1 where 1: "Create_alloc sim_svc sim_daemon sim_spec = (d1, Inr sim_v)" "Store_sandboxes (Daemon_Store d1) = [sim_row sim_v]"
      "Daemon_vm d1 = Daemon_vm sim_daemon"
    using sim_created by blast
  obtain d2 u p now where 2: "Create_prepare sim_svc d1 sim_v = (d2, Inr u)" "Store_sandboxes (Daemon_Store d2) = [sim_row (sim_u p now)]"
      "Daemon_vm d2 = Daemon_vm d1"
    using sim_prepared [OF 1(2)] unfolding sim_u_def by blast
  let ?s1 = "sim_system\<lparr>sys_d := d1, sys_create := Some sim_v\<rparr>"
  have a: "step sim_svc sim_system ?s1" by (rule step.create [where spec = sim_spec]) (simp_all add: sim_system_def 1(1))
  have "Create_prepare sim_svc (sys_d ?s1) sim_v = (d2, Inr u)" using 2(1) by simp
  then have b: "step sim_svc ?s1 (?s1\<lparr>sys_d := d2, sys_create := None\<rparr>)" by (intro step.prepare) simp_all
  have "(step sim_svc)\<^sup>*\<^sup>* sim_system (?s1\<lparr>sys_d := d2, sys_create := None\<rparr>)"
    using a b by (meson r_into_rtranclp rtranclp.rtrancl_into_rtrancl)
  moreover have "mc_host (Daemon_vm d2) = sim_host" using 1(3) 2(3) by (simp add: sim_daemon_def)
  ultimately show ?thesis using 2(2) by (intro exI conjI) (assumption, simp_all add: sim_system_def)
qed

lemma sim_run_live: "\<exists>s. (step sim_svc)\<^sup>*\<^sup>* sim_system s \<and> vm_live (Daemon_vm (sys_d s)) ''s1''"
proof -
  obtain s p now where r: "(step sim_svc)\<^sup>*\<^sup>* sim_system s" "sys_boot s = Map.empty" "sys_create s = None"
      "Store_sandboxes (Daemon_Store (sys_d s)) = [sim_row (sim_u p now)]" "mc_host (Daemon_vm (sys_d s)) = sim_host"
    using sim_run_prepared by blast
  let ?v = "starting (sim_u p now)"
  obtain d3 where 3: "Start_admit sim_svc (sys_d s) ''s1'' = (d3, Inr (?v, demo_bundle))" "Daemon_vm d3 = Daemon_vm (sys_d s)"
    using sim_admitted [OF r(4)] by blast
  have id: "Sandbox_ID ?v = ''s1''" by (simp add: starting_def)
  have g: "Get (d_db sim_svc (sys_d s)) (Daemon_Store (sys_d s)) ''s1'' = Inr (sim_u p now)"
    using r(4) by (simp add: Get_def List_sandboxes_def sim_row_def d_db_def)
  let ?s = "s\<lparr>sys_d := d3, sys_boot := (sys_boot s)(Sandbox_ID ?v \<mapsto> (?v, demo_bundle))\<rparr>"
  have a: "step sim_svc s ?s" by (rule step.admit [OF r(3) g _ 3(1)]) (simp_all add: r(2) id)
  obtain mc r' where m: "VM_Start (fc_backend demo_manager sim_env) (Daemon_vm d3) ?v demo_bundle = (mc, r')" "vm_live mc ''s1''"
    using sim_started_live [of "Daemon_vm d3"] r(5) 3(2) by metis
  let ?t = "\<lparr>sys_d = d3\<lparr>Daemon_vm := mc\<rparr>, sys_boot = Map.empty, sys_create = None\<rparr>"
  have "step sim_svc ?s ?t" by (rule step.crash_started [of _ "Sandbox_ID ?v" ?v demo_bundle]) (simp_all add: m(1))
  with r(1) a have "(step sim_svc)\<^sup>*\<^sup>* sim_system ?t" by (meson rtranclp.rtrancl_into_rtrancl)
  with m(2) show ?thesis by (metis Daemon.select_convs(3) Daemon.surjective Daemon.update_convs(3) system.select_convs(1))
qed

section \<open>Properties\<close>

text \<open>A daemon on Firecracker, and a first start on a host without machines.\<close>

definition deployed :: "Manager \<Rightarrow> fc_env \<Rightarrow> (machine, 'n, 'r) Services \<Rightarrow> bool" where
  "deployed m env svc \<longleftrightarrow> manager_ok m \<and> env_ok m env \<and> Svc_VM svc = fc_backend m env \<and> (\<forall>n. plain_elem (Svc_ID svc n))"

definition first_start :: "(machine, 'n, 'r) system \<Rightarrow> bool" where
  "first_start s \<longleftrightarrow> fresh s \<and> host_ok (mc_host (Daemon_vm (sys_d s))) \<and> (\<forall>i. \<not> vm_live (Daemon_vm (sys_d s)) i)"

lemma sim_deployed: "deployed demo_manager sim_env sim_svc"
proof -
  have "plain_elem (''s'' @ itoa_nat n)" for n
    using plain_Itoa [of "int n"] by (auto simp: plain_elem_def Itoa_def)
  then show ?thesis using demo_manager_ok sim_env_ok by (simp add: deployed_def)
qed

lemma sim_first_start: "first_start sim_system"
  by (simp add: first_start_def fresh_def sim_system_def sim_daemon_def vm_live_def sim_host_def group_pids_def host_ok_def boot_ok_def field_char_def is_alnum_def)

lemma deployed_inv:
  assumes "deployed m env svc" "first_start s0" "(step svc)\<^sup>*\<^sup>* s0 s"
  shows "vm_backend (fc_backend m env) vm_live (\<lambda>mc. recorded m (mc_host mc)) plain_elem" (is ?b)
    "vm_backend.sys_inv vm_live (\<lambda>mc. recorded m (mc_host mc)) plain_elem s"
proof -
  have "jailed m env" using assms(1) by unfold_locales (simp_all add: deployed_def)
  then show b: ?b by (rule jailed.backend)
  have "recorded m (mc_host (Daemon_vm (sys_d s0)))" using assms(2) by (simp add: first_start_def recorded_def vm_live_def)
  with assms show "vm_backend.sys_inv vm_live (\<lambda>mc. recorded m (mc_host mc)) plain_elem s"
    by (intro vm_backend.reach_inv [OF b assms(3)]) (simp_all add: first_start_def deployed_def)
qed



text \<open>C1. Records never compete.  In every reachable state the sandboxes have different slots, all in range,
  publish no host port twice, and mount only volumes that exist.\<close>

theorem records_disjoint:
  assumes "deployed m env svc" "first_start s0" "(step svc)\<^sup>*\<^sup>* s0 s" "rec (sys_d s) i = Some u"
  shows "1 \<le> Sandbox_Slot u \<and> Sandbox_Slot u \<le> 16000 \<and>
    (\<forall>n \<in> set (mount_names (Sandbox_Spec u)). volume_of (Daemon_Store (sys_d s)) n \<noteq> None) \<and>
    (\<forall>j w. rec (sys_d s) j = Some w \<and> j \<noteq> i \<longrightarrow> Sandbox_Slot u \<noteq> Sandbox_Slot w \<and>
       set (host_ports (Sandbox_Spec u)) \<inter> set (host_ports (Sandbox_Spec w)) = {})"
proof -
  note j = deployed_inv(1) [OF assms(1-3)] and I = deployed_inv(2) [OF assms(1-3)]
  have "alloc_ok (sys_d s)" "refs_ok (sys_d s)" using vm_backend.reach_alloc [OF j I] by blast+
  then show ?thesis using assms(4) unfolding alloc_ok_def refs_ok_def by metis
qed

theorem records_disjoint_witness:
  "\<exists>s u. (step sim_svc)\<^sup>*\<^sup>* sim_system s \<and> rec (sys_d s) ''s1'' = Some u \<and> 1 \<le> Sandbox_Slot u"
proof -
  obtain s p now where r: "(step sim_svc)\<^sup>*\<^sup>* sim_system s" "Store_sandboxes (Daemon_Store (sys_d s)) = [sim_row (sim_u p now)]"
    using sim_run_prepared by blast
  have "rec (sys_d s) ''s1'' = Some (sim_u p now)" using r(2) by (simp add: rec_def sandbox_of_def sim_row_def)
  with records_disjoint [OF sim_deployed sim_first_start r(1) this] r(1) show ?thesis by blast
qed

lemma sim_host_ok: "host_ok sim_host" "group_pids sim_host i = {}" "recorded m sim_host"
  by (simp_all add: sim_host_def group_pids_def host_ok_def boot_ok_def field_char_def is_alnum_def recorded_def)

lemma sim_run_host: "vh_procs (run sim_env t sim_host k) = Map.empty \<and> host_ok (run sim_env t sim_host k)"
proof -
  have r: "recorded demo_manager (run sim_env t sim_host k)" using run_recorded [OF sim_env_ok sim_host_ok(3)] by blast
  have t: "vh_procs h = Map.empty \<Longrightarrow> vh_procs (fe_time sim_env i h) = Map.empty" for i h by (simp add: sim_env_def fun_eq_iff)
  have "vh_procs (run sim_env t sim_host k) = Map.empty" by (induction k) (simp add: sim_host_def, simp add: t)
  with r show ?thesis by (simp add: recorded_def)
qed

text \<open>Killing and removing a sandbox that has no machine.\<close>

lemma sim_kill:
  assumes "mc_host mc = sim_host" "Sandbox_ID v = ''s1''"
  shows "\<exists>mc'. fc_Kill demo_manager sim_env mc v = (mc', None) \<and> vh_procs (mc_host mc') = Map.empty \<and> host_ok (mc_host mc')"
proof -
  let ?hs = "run sim_env (mc_tick mc) (mc_host mc)" and ?ke = "fe_kill sim_env (mc_tick mc) (mc_host mc) v"
  have e: "vh_procs (?hs k) = Map.empty" "host_ok (?hs k)" for k using sim_run_host assms(1) by simp_all
  have n: "\<not> host.owner (?hs k) u" for k u using e(1) by (simp add: host.owner_def)
  have p: "plain_elem ''s1''" by (simp add: plain_elem_def)
  have "read_file sim_host (pid_path demo_manager ''s1'') = Inl ErrNotExist"
    unfolding demo_pid_path [OF p] by (simp add: read_file_def HasPrefix_def sim_host_def)
  then have d: "Discover demo_manager (read_file (?hs 0)) v = (forget_pid v, None)"
    using n [of 0 v] host.ownedAlive [OF e(2) demo_root, of 0 v] assms by (simp add: Discover_def pid_path_def)
  have "Kill demo_manager (\<lambda>k. read_file (?hs k)) ?ke v = Some (None, None)"
    unfolding Kill_def d prod.case option.case host.ownedAlive [OF e(2) demo_root] using n [of 1] by simp
  then show ?thesis using e by (simp add: fc_Kill_def Let_def advance_def)
qed

lemma sim_remove:
  assumes "vh_procs (mc_host mc) = Map.empty" "host_ok (mc_host mc)"
  shows "\<exists>mc'. fc_Remove demo_manager sim_env mc v = (mc', None)"
proof -
  have "\<not> Alive (read_file (mc_host mc)) v" using assms by (simp add: Alive_owner host.owner_def)
  then show ?thesis by (simp add: fc_Remove_def Remove_vm_def Let_def sim_env_def)
qed


lemma sim_Remove:
  assumes "Store_sandboxes (Daemon_Store d) = [sim_row (sim_u p now)]" "mc_host (Daemon_vm d) = sim_host"
  shows "\<exists>d'. Remove sim_svc d ''s1'' False = (d', None)"
proof -
  let ?v = "sim_u p now" and ?d = "d_Intent sim_svc (called (called d)) ''s1'' ''remove''"
  have g: "Get (\<lambda>_. None) (Daemon_Store d) ''s1'' = Inr ?v" using assms(1) by (simp add: Get_def List_sandboxes_def sim_row_def)
  obtain mc1 where 1: "fc_Kill demo_manager sim_env (Daemon_vm d) ?v = (mc1, None)" "vh_procs (mc_host mc1) = Map.empty" "host_ok (mc_host mc1)"
    using sim_kill [OF assms(2), of ?v] by auto
  obtain mc2 where 2: "fc_Remove demo_manager sim_env mc1 ?v = (mc2, None)" using sim_remove [OF 1(2,3)] by blast
  have k: "VM_Kill (fc_backend demo_manager sim_env) = fc_Kill demo_manager sim_env"
      "VM_Remove (fc_backend demo_manager sim_env) = fc_Remove demo_manager sim_env" by (simp_all add: fc_backend_def)
  show ?thesis
    unfolding Remove_def d_Get_def d_Kill_def d_RemoveVM_def d_RemoveNet_def stopDNS_def on_net_def on_vm_def on_repo_def d_db_def
    using g 1(1) 2 by (simp add: called_def d_Intent_def k Let_def d_Delete_def Delete_def d_db_def d_Update_def split: prod.split)
qed


end
